theory Spec2Isabelle
  imports Complex_Main
begin

section \<open>The scene graph\<close>

text \<open>
  The plugin (\<^verbatim>\<open>code.js\<close>) rewrites a tree of scene nodes owned by the host
  application. Nodes are objects with identity: the worklist keeps references to them
  while their parents' child lists are rewritten. The model is therefore a store: a
  node reference is a natural number, the document maps references to node records,
  and \<open>fresh\<close> is the next unused reference.

  JavaScript numbers are IEEE doubles. A finite double is a rational number, so the
  numbers of a node are rationals, and the arithmetic of the text branch and of the
  placement of a copy rounds each exact result to the nearest double
  (\<open>toDouble\<close>, below). Division by zero, which yields an infinity or NaN in
  JavaScript, is written out where the source divides.
\<close>

datatype node_type =
  FRAME | COMPONENT | INSTANCE | TEXT | RECTANGLE | ELLIPSE | VECTOR | POLYGON | STAR
  | BOOLEAN_OPERATION | LINE | GROUP | PAGE | OTHER

record font =
  family :: string
  style :: string

text \<open>\<open>textNode.fontName\<close> and \<open>textNode.fontSize\<close> are a value or the host's
  mixed marker.\<close>

datatype font_name = MixedFont | FontName font

datatype font_size = MixedSize | FontSize rat

text \<open>\<open>textNode.lineHeight\<close>: absent (undefined or null), the mixed marker, or an
  object tagged by its unit; \<open>LhOther\<close> stands for any other unit tag.\<close>

datatype line_height = LhAbsent | LhMixed | LhAuto | LhPixels rat | LhPercent rat | LhOther

datatype paint = SOLID rat rat rat

record node =
  ntype :: node_type
  name :: string
  visible :: bool
  locked :: bool
  xpos :: rat
  ypos :: rat
  width :: rat
  height :: rat
  children :: "nat list"
  parent :: "nat option"
  fontName :: font_name
  fontSize :: font_size
  lineHeight :: line_height
  charRuns :: "(font_name \<times> font_size) list"
  fills :: "paint list"
  cornerRadius :: rat

text \<open>
  \<open>xpos\<close> and \<open>ypos\<close> are the source's \<open>x\<close> and \<open>y\<close>, \<open>ntype\<close> its \<open>type\<close>.
  Entry \<open>i\<close> of \<open>charRuns\<close> holds \<open>getRangeFontName(i, i + 1)\<close> and
  \<open>getRangeFontSize(i, i + 1)\<close>; its length is \<open>characters.length\<close>.
\<close>

datatype error =
  FontLoadError font
  | DetachError nat
  | InsertError nat int
  | MissingNode nat

datatype notice =
  InvalidRadiusNotice
  | SelectFrameNotice
  | FontWarning string
  | SuccessOne
  | SuccessMany nat
  | NoValidFrames
  | SomeInvalid
  | ErrorCreating error

text \<open>
  The state a run works on: the document, the current selection, the module variable
  \<open>notifiedFontFamilies\<close> and the notifications shown to the user so far
  (\<open>figma.notify\<close>), oldest first.
\<close>

record state =
  nodes :: "nat \<Rightarrow> node option"
  fresh :: nat
  selection :: "nat list"
  notifiedFontFamilies :: "string set"
  notifications :: "notice list"

text \<open>
  What the host decides and the plugin cannot see in advance: whether
  \<open>figma.loadFontAsync\<close> resolves for a font, and whether \<open>detachInstance\<close>
  succeeds on a node.
\<close>

record host =
  canLoadFont :: "font \<Rightarrow> bool"
  canDetach :: "nat \<Rightarrow> bool"

section \<open>Numbers\<close>

text \<open>
  \<open>toDouble x\<close> is the double nearest to \<open>x\<close>: the significand has 53 bits and a tie
  goes to the even significand. The exponent is not bounded, so overflow to an
  infinity and the subnormal numbers are outside the model. \<open>bitLength n\<close> is the
  number of binary digits of a positive \<open>n\<close>, \<open>floorLog2 a\<close> the exponent of a
  positive \<open>a\<close>.
\<close>

function bitLength :: "int \<Rightarrow> int" where
  "bitLength n = (if n \<le> 0 then 0 else 1 + bitLength (n div 2))"
  by pat_completeness auto
termination
  by (relation "measure nat") auto

declare bitLength.simps [simp del]

definition pow2 :: "int \<Rightarrow> rat" where
  "pow2 k = (if 0 \<le> k then 2 ^ nat k else 1 / 2 ^ nat (- k))"

definition floorLog2 :: "rat \<Rightarrow> int" where
  "floorLog2 a =
     (case quotient_of a of
        (p, q) \<Rightarrow>
          (let k = bitLength p - bitLength q
           in if pow2 k \<le> a then k else k - 1))"

definition roundHalfEven :: "rat \<Rightarrow> int" where
  "roundHalfEven m =
     (let f = \<lfloor>m\<rfloor>; d = m - of_int f
      in if d < 1 / 2 then f else if 1 / 2 < d then f + 1 else if even f then f else f + 1)"

definition toDouble :: "rat \<Rightarrow> rat" where
  "toDouble x =
     (if x = 0 then 0
      else (let e = floorLog2 \<bar>x\<bar> - 52 in of_int (roundHalfEven (x / pow2 e)) * pow2 e))"

text \<open>The operators \<open>*\<close>, \<open>/\<close> and \<open>+\<close> of the source on finite numbers (the
  divisor not zero). A decimal literal such as \<open>0.7\<close> is \<open>toDouble (7 / 10)\<close>.\<close>

definition jsTimes :: "rat \<Rightarrow> rat \<Rightarrow> rat" where
  "jsTimes a b = toDouble (a * b)"

definition jsDivide :: "rat \<Rightarrow> rat \<Rightarrow> rat" where
  "jsDivide a b = toDouble (a / b)"

definition jsPlus :: "rat \<Rightarrow> rat \<Rightarrow> rat" where
  "jsPlus a b = toDouble (a + b)"

section \<open>Eligibility classifier\<close>

definition convertibleTypes :: "node_type list" where
  "convertibleTypes =
     [TEXT, RECTANGLE, ELLIPSE, VECTOR, POLYGON, STAR, BOOLEAN_OPERATION, LINE]"

text \<open>\<open>shouldConvertToSkeleton\<close> on the nodes of the document; \<open>None\<close> is the
  null node. Width and height are numbers in every node record and no property read
  throws, so the \<open>typeof\<close> tests are true and the \<open>catch\<close> block is not entered. The
  function on arbitrary values of the host follows below.\<close>

definition shouldConvertToSkeleton :: "node option \<Rightarrow> bool" where
  "shouldConvertToSkeleton n =
     (case n of
        None \<Rightarrow> False
      | Some nd \<Rightarrow>
          if \<not> visible nd then False
          else if width nd < 4 \<or> height nd < 4 then False
          else ntype nd \<in> set convertibleTypes)"

text \<open>
  What the host hands to the classifier is a JavaScript value, not a node record: the
  argument may be null or undefined, a property may hold a value of any type, and
  reading a property of a host object may throw (the getters of a node that has been
  removed do). \<open>JNumber\<close> is a finite number, \<open>JNaN\<close> the number NaN; \<open>JObject\<close>
  stands for every other value.
\<close>

datatype js_value = JUndefined | JNull | JBool bool | JNumber rat | JNaN | JString string | JObject

datatype access = Returns js_value | Throws

record host_object =
  getVisible :: access
  getWidth :: access
  getHeight :: access
  getType :: access

datatype thrown = Thrown string

text \<open>\<open>typeof v === 'number'\<close> and \<open>v < 4\<close> for a number \<open>v\<close>; NaN is a number and
  is not below 4.\<close>

fun isNumber :: "js_value \<Rightarrow> bool" where
  "isNumber (JNumber x) = True"
| "isNumber JNaN = True"
| "isNumber _ = False"

fun below4 :: "js_value \<Rightarrow> bool" where
  "below4 (JNumber x) = (x < 4)"
| "below4 _ = False"

text \<open>The string the host gives for \<open>node.type\<close>; \<open>OTHER\<close> stands for the types the
  plugin never names, such as a slice.\<close>

fun typeName :: "node_type \<Rightarrow> string" where
  "typeName FRAME = ''FRAME''"
| "typeName COMPONENT = ''COMPONENT''"
| "typeName INSTANCE = ''INSTANCE''"
| "typeName TEXT = ''TEXT''"
| "typeName RECTANGLE = ''RECTANGLE''"
| "typeName ELLIPSE = ''ELLIPSE''"
| "typeName VECTOR = ''VECTOR''"
| "typeName POLYGON = ''POLYGON''"
| "typeName STAR = ''STAR''"
| "typeName BOOLEAN_OPERATION = ''BOOLEAN_OPERATION''"
| "typeName LINE = ''LINE''"
| "typeName GROUP = ''GROUP''"
| "typeName PAGE = ''PAGE''"
| "typeName OTHER = ''SLICE''"

text \<open>
  The \<open>try\<close> block of \<open>shouldConvertToSkeleton\<close>, statement by statement: \<open>Inl\<close> is
  the exception of the property read that threw, \<open>Inr\<close> the value returned. The
  disjunction reads \<open>width\<close>, then \<open>height\<close>, then compares; a property gives the same
  value each time it is read.
\<close>

definition shouldConvertTry :: "host_object option \<Rightarrow> thrown + bool" where
  "shouldConvertTry node =
     (case node of
        None \<Rightarrow> Inr False
      | Some n \<Rightarrow>
          (case getVisible n of
             Throws \<Rightarrow> Inl (Thrown ''visible'')
           | Returns v \<Rightarrow>
               if v = JBool False then Inr False
               else
                 (case getWidth n of
                    Throws \<Rightarrow> Inl (Thrown ''width'')
                  | Returns w \<Rightarrow>
                      if \<not> isNumber w then Inr False
                      else
                        (case getHeight n of
                           Throws \<Rightarrow> Inl (Thrown ''height'')
                         | Returns hh \<Rightarrow>
                             if \<not> isNumber hh then Inr False
                             else if below4 w \<or> below4 hh then Inr False
                             else
                               (case getType n of
                                  Throws \<Rightarrow> Inl (Thrown ''type'')
                                | Returns t \<Rightarrow>
                                    Inr (t \<in> set (map (\<lambda>c. JString (typeName c))
                                                     convertibleTypes)))))))"

text \<open>The function: the \<open>catch\<close> block logs the exception and returns \<open>false\<close>.\<close>

definition shouldConvertToSkeletonJS :: "host_object option \<Rightarrow> bool" where
  "shouldConvertToSkeletonJS node =
     (case shouldConvertTry node of Inl e \<Rightarrow> False | Inr b \<Rightarrow> b)"

text \<open>The object the host hands out for a node record of the document: no getter
  throws, and the properties have the types of the record's fields.\<close>

definition objectOf :: "node \<Rightarrow> host_object" where
  "objectOf nd =
     \<lparr>getVisible = Returns (JBool (visible nd)), getWidth = Returns (JNumber (width nd)),
      getHeight = Returns (JNumber (height nd)), getType = Returns (JString (typeName (ntype nd)))\<rparr>"

section \<open>Text metrics\<close>

definition notify :: "notice \<Rightarrow> state \<Rightarrow> state" where
  "notify m s = s\<lparr>notifications := notifications s @ [m]\<rparr>"

definition fallbackFonts :: "font list" where
  "fallbackFonts =
     [\<lparr>family = ''Inter'', style = ''Regular''\<rparr>,
      \<lparr>family = ''Roboto'', style = ''Regular''\<rparr>,
      \<lparr>family = ''SF Pro Text'', style = ''Regular''\<rparr>,
      \<lparr>family = ''Helvetica'', style = ''Regular''\<rparr>]"

text \<open>\<open>typeof fontName === 'object' && fontName.family && fontName.style\<close>: an
  empty string is falsy.\<close>

fun usableFont :: "font_name \<Rightarrow> bool" where
  "usableFont MixedFont = False"
| "usableFont (FontName f) = (family f \<noteq> [] \<and> style f \<noteq> [])"

text \<open>The scan of the character sub-ranges: \<open>s > maxFontSize\<close> replaces the
  running maximum when \<open>s\<close> is a number.\<close>

fun scanRanges :: "(font_name \<times> font_size) list \<Rightarrow> rat \<Rightarrow> rat" where
  "scanRanges [] maxFontSize = maxFontSize"
| "scanRanges ((f, MixedSize) # rs) maxFontSize = scanRanges rs maxFontSize"
| "scanRanges ((f, FontSize sz) # rs) maxFontSize =
     scanRanges rs (if sz > maxFontSize then sz else maxFontSize)"

text \<open>\<open>(fontName && fontName.family) || 'MIXED'\<close> in the catch block.\<close>

fun familyName :: "font_name \<Rightarrow> string" where
  "familyName MixedFont = ''MIXED''"
| "familyName (FontName f) = (if family f = [] then ''MIXED'' else family f)"

text \<open>
  \<open>getFontSizeAndLoadFont\<close>. In the uniform branch the node's font is loaded, then
  the fallbacks in order; when none loads the first error is thrown, the catch block
  notifies once per family and rethrows. \<open>fontName\<close> is reassigned only when a
  fallback loads, so the family reported is the node's own. In the mixed branch each
  failed load is caught and logged, which leaves nothing to observe.
\<close>

definition getFontSizeAndLoadFont ::
  "host \<Rightarrow> node \<Rightarrow> state \<Rightarrow> (error + rat) \<times> state" where
  "getFontSizeAndLoadFont h textNode s =
     (let fontSize0 = 16 in
      case fontName textNode of
        FontName f \<Rightarrow>
          if usableFont (FontName f) then
            if canLoadFont h f \<or> list_ex (canLoadFont h) fallbackFonts then
              (Inr (case fontSize textNode of FontSize sz \<Rightarrow> sz | MixedSize \<Rightarrow> 16), s)
            else
              (Inl (FontLoadError f),
               if familyName (FontName f) \<in> notifiedFontFamilies s then s
               else notify (FontWarning (familyName (FontName f)))
                      (s\<lparr>notifiedFontFamilies :=
                           insert (familyName (FontName f)) (notifiedFontFamilies s)\<rparr>))
          else (Inr (scanRanges (charRuns textNode) fontSize0), s)
      | MixedFont \<Rightarrow> (Inr (scanRanges (charRuns textNode) fontSize0), s))"

text \<open>The line height in pixels, as the cascade on \<open>lineHeight\<close> computes it.\<close>

fun lineHeightValue :: "line_height \<Rightarrow> rat \<Rightarrow> rat" where
  "lineHeightValue LhAbsent fs = jsTimes fs (toDouble (12 / 10))"
| "lineHeightValue LhMixed fs = jsTimes fs (toDouble (12 / 10))"
| "lineHeightValue LhAuto fs = jsTimes fs (toDouble (12 / 10))"
| "lineHeightValue (LhPixels v) fs = v"
| "lineHeightValue (LhPercent v) fs = jsTimes fs (jsDivide v 100)"
| "lineHeightValue LhOther fs = jsTimes fs (toDouble (12 / 10))"

text \<open>
  \<open>Math.max(1, Math.round(height / lineHeightValue))\<close>. \<open>Math.round\<close> rounds
  halves up, as \<^const>\<open>round\<close> does. With a line height of zero the quotient is
  not a rational: for a positive height it is \<open>Infinity\<close> and the loop over the
  lines never ends (\<open>None\<close>); for height zero it is NaN, the maximum is NaN and the
  loop body never runs; for a negative height it is \<open>-Infinity\<close> and the count is 1.
\<close>

definition lineCount :: "rat \<Rightarrow> rat \<Rightarrow> nat option" where
  "lineCount h lh =
     (if lh = 0 then (if h > 0 then None else if h = 0 then Some 0 else Some 1)
      else Some (nat (max 1 (round (jsDivide h lh)))))"

text \<open>\<open>Math.max(6, Math.round(fontSize * 0.7))\<close>.\<close>

definition skeletonHeight :: "rat \<Rightarrow> rat" where
  "skeletonHeight fs = max 6 (of_int (round (jsTimes fs (toDouble (7 / 10)))))"

section \<open>Host operations on the document\<close>

text \<open>
  The host's node operations, modelled from their use in the source:
  \<open>figma.createRectangle\<close> followed by the assignments to the new rectangle
  allocates a node with those properties (the assignments are taken to succeed, so the
  catch blocks around them are dead); \<open>parent.insertChild(index, child)\<close> throws
  for an index outside \<open>0..length\<close>; \<open>node.remove()\<close> takes the node out of its
  parent's child list. A new node has no parent inside the model until it is inserted.
\<close>

definition defaultRectangle :: node where
  "defaultRectangle =
     \<lparr>ntype = RECTANGLE, name = ''Rectangle'', visible = True, locked = False,
      xpos = 0, ypos = 0, width = 100, height = 100, children = [], parent = None,
      fontName = MixedFont, fontSize = MixedSize, lineHeight = LhAbsent, charRuns = [],
      fills = [], cornerRadius = 0\<rparr>"

definition allocate :: "node \<Rightarrow> state \<Rightarrow> nat \<times> state" where
  "allocate nd s = (fresh s, s\<lparr>nodes := (nodes s)(fresh s \<mapsto> nd), fresh := Suc (fresh s)\<rparr>)"

definition setNode :: "nat \<Rightarrow> (node \<Rightarrow> node) \<Rightarrow> state \<Rightarrow> state" where
  "setNode i f s = s\<lparr>nodes := (nodes s)(i := map_option f (nodes s i))\<rparr>"

definition insertChild :: "nat \<Rightarrow> int \<Rightarrow> nat \<Rightarrow> state \<Rightarrow> error option \<times> state" where
  "insertChild p idx c s =
     (case nodes s p of
        None \<Rightarrow> (Some (MissingNode p), s)
      | Some pn \<Rightarrow>
          if idx < 0 \<or> int (length (children pn)) < idx then (Some (InsertError p idx), s)
          else (None,
                setNode c (\<lambda>n. n\<lparr>parent := Some p\<rparr>)
                  (setNode p (\<lambda>n. n\<lparr>children := take (nat idx) (children n) @ [c]
                                                   @ drop (nat idx) (children n)\<rparr>) s)))"

definition removeNode :: "nat \<Rightarrow> state \<Rightarrow> state" where
  "removeNode e s =
     (case nodes s e of
        None \<Rightarrow> s
      | Some nd \<Rightarrow>
          (case parent nd of
             None \<Rightarrow> s
           | Some p \<Rightarrow>
               setNode e (\<lambda>n. n\<lparr>parent := None\<rparr>)
                 (setNode p (\<lambda>n. n\<lparr>children := remove1 e (children n)\<rparr>) s)))"

text \<open>\<open>Array.prototype.indexOf\<close>: the first position, or \<open>-1\<close>.\<close>

fun indexOf :: "nat list \<Rightarrow> nat \<Rightarrow> int" where
  "indexOf [] a = - 1"
| "indexOf (b # bs) a =
     (if b = a then 0 else (let i = indexOf bs a in if i < 0 then - 1 else i + 1))"

text \<open>The decimal digits of a number, for the template strings.\<close>

fun showNat :: "nat \<Rightarrow> string" where
  "showNat n =
     (if n < 10 then [char_of (48 + n)]
      else showNat (n div 10) @ [char_of (48 + n mod 10)])"

declare showNat.simps [simp del]

section \<open>Node rewriter\<close>

definition skeletonFill :: "paint list" where
  "skeletonFill = [SOLID (85 / 100) (85 / 100) (85 / 100)]"

text \<open>The rectangle built in iteration \<open>i\<close> of the loop over the lines of a text
  node \<open>el\<close>, \<open>n\<close> being the line count and \<open>yCursor\<close> the running offset.\<close>

definition textBar :: "rat \<Rightarrow> node \<Rightarrow> rat \<Rightarrow> nat \<Rightarrow> nat \<Rightarrow> rat \<Rightarrow> node" where
  "textBar cr el sh n i yCursor =
     defaultRectangle
       \<lparr>xpos := xpos el, ypos := yCursor,
        width := (if int i = int n - 1 then jsTimes (width el) (toDouble (6 / 10))
                  else width el),
        height := sh,
        fills := skeletonFill,
        cornerRadius := cr,
        name := name el @ '' (skeleton line '' @ showNat (i + 1) @ '')''\<rparr>"

text \<open>The loop \<open>for (let i = 0; i < lineCount; i++)\<close>; an exception of
  \<open>insertChild\<close> leaves it with the state reached.\<close>

function barLoop ::
  "rat \<Rightarrow> node \<Rightarrow> nat \<Rightarrow> int \<Rightarrow> rat \<Rightarrow> rat \<Rightarrow> nat \<Rightarrow> nat \<Rightarrow> rat \<Rightarrow> state
     \<Rightarrow> error option \<times> state" where
  "barLoop cr el p originalIndex lh sh n i yCursor s =
     (if i < n then
        (case allocate (textBar cr el sh n i yCursor) s of
           (rect, s1) \<Rightarrow>
             (case insertChild p (originalIndex + int i) rect s1 of
                (Some e, s2) \<Rightarrow> (Some e, s2)
              | (None, s2) \<Rightarrow>
                  barLoop cr el p originalIndex lh sh n (Suc i) (jsPlus yCursor lh) s2))
      else (None, s))"
  by pat_completeness auto
termination
  by (relation "measure (\<lambda>(cr, el, p, originalIndex, lh, sh, n, i, yCursor, s). n - i)") auto

declare barLoop.simps [simp del]

text \<open>The value of \<open>yCursor\<close> at the start of iteration \<open>i\<close>: the start value after
  \<open>i\<close> executions of \<open>yCursor += lineHeightValue\<close>.\<close>

fun yCursorAt :: "rat \<Rightarrow> rat \<Rightarrow> nat \<Rightarrow> rat" where
  "yCursorAt y lh 0 = y"
| "yCursorAt y lh (Suc i) = yCursorAt (jsPlus y lh) lh i"

text \<open>The placeholder of a node that is not text. The corner radius of an ellipse is
  read back from the rectangle after \<open>resize\<close>, which has given it the element's
  width and height; halving a double is exact.\<close>

definition shapePlaceholder :: "rat \<Rightarrow> node \<Rightarrow> node" where
  "shapePlaceholder cr el =
     defaultRectangle
       \<lparr>xpos := xpos el, ypos := ypos el, width := width el, height := height el,
        fills := skeletonFill,
        cornerRadius := (if ntype el = ELLIPSE then min (width el) (height el) / 2 else cr),
        name := name el @ '' (skeleton)''\<rparr>"

text \<open>
  \<open>convertElementToSkeleton\<close>. The result is \<open>None\<close> when the call does not
  return (an unbounded line count); otherwise the exception thrown, if any, and the
  state reached. A reference without a node record stands for an object the host has
  invalidated: reading it throws.
\<close>

definition convertElementToSkeleton ::
  "host \<Rightarrow> nat \<Rightarrow> rat \<Rightarrow> state \<Rightarrow> (error option \<times> state) option" where
  "convertElementToSkeleton h originalElement cr s =
     (case nodes s originalElement of
        None \<Rightarrow> Some (Some (MissingNode originalElement), s)
      | Some el \<Rightarrow>
          (case parent el of
             None \<Rightarrow> Some (None, s)
           | Some p \<Rightarrow>
               (case nodes s p of
                  None \<Rightarrow> Some (Some (MissingNode p), s)
                | Some pn \<Rightarrow>
                    (let originalIndex = indexOf (children pn) originalElement in
                     if ntype el = TEXT then
                       (case getFontSizeAndLoadFont h el s of
                          (Inl e, s1) \<Rightarrow> Some (None, s1)
                        | (Inr fs, s1) \<Rightarrow>
                            (let lh = lineHeightValue (lineHeight el) fs in
                             case lineCount (height el) lh of
                               None \<Rightarrow> None
                             | Some n \<Rightarrow>
                                 (case barLoop cr el p originalIndex lh (skeletonHeight fs)
                                         n 0 (ypos el) s1 of
                                    (Some e, s2) \<Rightarrow> Some (Some e, s2)
                                  | (None, s2) \<Rightarrow> Some (None, removeNode originalElement s2))))
                     else
                       (case allocate (shapePlaceholder cr el) s of
                          (rect, s1) \<Rightarrow>
                            (case insertChild p originalIndex rect s1 of
                               (Some e, s2) \<Rightarrow> Some (Some e, s2)
                             | (None, s2) \<Rightarrow> Some (None, removeNode originalElement s2)))))))"

section \<open>Tree collector and the conversion of a subtree\<close>

text \<open>
  \<open>collectElements\<close> recurses over the child lists; the first argument bounds the
  depth, and \<open>None\<close> is a traversal that has not returned within it. The list is
  \<open>elementsToConvert\<close>, in the order of the pushes.
\<close>

fun collectElements :: "nat \<Rightarrow> state \<Rightarrow> nat \<Rightarrow> nat list option" where
  "collectElements 0 s n = None"
| "collectElements (Suc k) s n =
     (case nodes s n of
        None \<Rightarrow> Some []
      | Some nd \<Rightarrow>
          (case those (map (collectElements k s) (children nd)) of
             None \<Rightarrow> None
           | Some rs \<Rightarrow>
               Some ((if shouldConvertToSkeleton (Some nd) then [n] else []) @ concat rs)))"

text \<open>The loop of \<open>convertToSkeleton\<close> over the worklist; its catch block drops
  the exception of an element and goes on.\<close>

fun convertEach :: "host \<Rightarrow> rat \<Rightarrow> nat list \<Rightarrow> state \<Rightarrow> state option" where
  "convertEach h cr [] s = Some s"
| "convertEach h cr (e # es) s =
     (case convertElementToSkeleton h e cr s of
        None \<Rightarrow> None
      | Some (err, s1) \<Rightarrow> convertEach h cr es s1)"

definition convertToSkeleton :: "host \<Rightarrow> nat \<Rightarrow> nat \<Rightarrow> rat \<Rightarrow> state \<Rightarrow> state option" where
  "convertToSkeleton h fuel rootFrame cr s =
     (case collectElements fuel s rootFrame of
        None \<Rightarrow> None
      | Some elementsToConvert \<Rightarrow> convertEach h cr (rev elementsToConvert) s)"

section \<open>Instance flattener\<close>

text \<open>
  \<open>detachAllInstances\<close>. \<open>node.detachInstance()\<close> is the host's: it turns the
  instance into a plain frame holding the same children and returns it, or throws.
  The children are iterated over a copy of the list taken before the recursion.
\<close>

fun detachAllInstances :: "host \<Rightarrow> nat \<Rightarrow> nat \<Rightarrow> state \<Rightarrow> (error option \<times> state) option"
  and detachChildren :: "host \<Rightarrow> nat \<Rightarrow> nat list \<Rightarrow> state \<Rightarrow> (error option \<times> state) option"
  where
  "detachAllInstances h 0 n s = None"
| "detachAllInstances h (Suc k) n s =
     (case nodes s n of
        None \<Rightarrow> Some (None, s)
      | Some nd \<Rightarrow>
          if ntype nd = INSTANCE then
            (if canDetach h n then
               detachChildren h k (children nd) (setNode n (\<lambda>d. d\<lparr>ntype := FRAME\<rparr>) s)
             else Some (Some (DetachError n), s))
          else detachChildren h k (children nd) s)"
| "detachChildren h k [] s = Some (None, s)"
| "detachChildren h k (c # cs) s =
     (case detachAllInstances h k c s of
        None \<Rightarrow> None
      | Some (Some e, s1) \<Rightarrow> Some (Some e, s1)
      | Some (None, s1) \<Rightarrow> detachChildren h k cs s1)"

section \<open>Selection-level orchestrator\<close>

text \<open>
  \<open>frame.clone()\<close> is the host's: a deep copy of the subtree under new references.
  The copy's root is parented under the page, which lies outside the model, so it has
  no parent here. \<open>None\<close> is a copy that has not returned within the depth bound, or
  that met a reference without a node.
\<close>

fun cloneNode :: "nat \<Rightarrow> nat \<Rightarrow> nat option \<Rightarrow> state \<Rightarrow> (nat \<times> state) option"
  and cloneChildren :: "nat \<Rightarrow> nat list \<Rightarrow> nat \<Rightarrow> state \<Rightarrow> (nat list \<times> state) option"
  where
  "cloneNode 0 n par s = None"
| "cloneNode (Suc k) n par s =
     (case nodes s n of
        None \<Rightarrow> None
      | Some nd \<Rightarrow>
          (case allocate (nd\<lparr>parent := par, children := []\<rparr>) s of
             (c, s1) \<Rightarrow>
               (case cloneChildren k (children nd) c s1 of
                  None \<Rightarrow> None
                | Some (cs, s2) \<Rightarrow> Some (c, setNode c (\<lambda>d. d\<lparr>children := cs\<rparr>) s2))))"
| "cloneChildren k [] par s = Some ([], s)"
| "cloneChildren k (c # cs) par s =
     (case cloneNode k c (Some par) s of
        None \<Rightarrow> None
      | Some (c1, s1) \<Rightarrow>
          (case cloneChildren k cs par s1 of
             None \<Rightarrow> None
           | Some (cs1, s2) \<Rightarrow> Some (c1 # cs1, s2)))"

text \<open>\<open>convertFrameInPlace\<close>: the catch block logs and rethrows.\<close>

definition convertFrameInPlace ::
  "host \<Rightarrow> nat \<Rightarrow> nat \<Rightarrow> rat \<Rightarrow> state \<Rightarrow> (error option \<times> state) option" where
  "convertFrameInPlace h fuel frame cr s =
     (case detachAllInstances h fuel frame s of
        None \<Rightarrow> None
      | Some (Some e, s1) \<Rightarrow> Some (Some e, s1)
      | Some (None, s1) \<Rightarrow>
          (case convertToSkeleton h fuel frame cr s1 of
             None \<Rightarrow> None
           | Some s2 \<Rightarrow> Some (None, s2)))"

text \<open>\<open>convertTopLevelFrame\<close>: the catch block logs and rethrows; the value
  returned is the clone.\<close>

definition convertTopLevelFrame ::
  "host \<Rightarrow> nat \<Rightarrow> nat \<Rightarrow> rat \<Rightarrow> state \<Rightarrow> ((error + nat) \<times> state) option" where
  "convertTopLevelFrame h fuel frame cr s =
     (case nodes s frame of
        None \<Rightarrow> Some (Inl (MissingNode frame), s)
      | Some fr \<Rightarrow>
          (case cloneNode fuel frame None s of
             None \<Rightarrow> None
           | Some (skeletonFrame, s1) \<Rightarrow>
               (let s2 = setNode skeletonFrame (\<lambda>d. d\<lparr>name := name fr @ '' (Skeleton)''\<rparr>) s1;
                    s3 = setNode skeletonFrame
                           (\<lambda>d. d\<lparr>xpos := jsPlus (jsPlus (xpos fr) (width fr)) 50\<rparr>) s2;
                    s4 = setNode skeletonFrame (\<lambda>d. d\<lparr>ypos := ypos fr\<rparr>) s3
                in case detachAllInstances h fuel skeletonFrame s4 of
                     None \<Rightarrow> None
                   | Some (Some e, s5) \<Rightarrow> Some (Inl e, s5)
                   | Some (None, s5) \<Rightarrow>
                       (case convertToSkeleton h fuel skeletonFrame cr s5 of
                          None \<Rightarrow> None
                        | Some s6 \<Rightarrow> Some (Inr skeletonFrame, s6)))))"

text \<open>\<open>selectedNode.parent && selectedNode.parent.type === 'FRAME'\<close>.\<close>

definition isNestedFrame :: "state \<Rightarrow> node \<Rightarrow> bool" where
  "isNestedFrame s nd =
     (case parent nd of
        None \<Rightarrow> False
      | Some p \<Rightarrow> (case nodes s p of None \<Rightarrow> False | Some pn \<Rightarrow> ntype pn = FRAME))"

text \<open>
  The loop of \<open>createSkeletonVersion\<close> over the selection, with its variables
  \<open>processedFrames\<close> and \<open>hasErrors\<close>. The \<open>try\<close> block encloses the whole
  loop, so an exception of one item ends the loop: the result is \<open>Inl\<close> of it.
\<close>

fun processSelection ::
  "host \<Rightarrow> nat \<Rightarrow> rat \<Rightarrow> nat list \<Rightarrow> nat list \<Rightarrow> bool \<Rightarrow> state
     \<Rightarrow> ((error + nat list \<times> bool) \<times> state) option" where
  "processSelection h fuel cr [] processedFrames hasErrors s =
     Some (Inr (processedFrames, hasErrors), s)"
| "processSelection h fuel cr (selectedNode # rest) processedFrames hasErrors s =
     (case nodes s selectedNode of
        None \<Rightarrow> processSelection h fuel cr rest processedFrames True s
      | Some nd \<Rightarrow>
          if ntype nd \<noteq> FRAME \<and> ntype nd \<noteq> COMPONENT \<and> ntype nd \<noteq> INSTANCE then
            processSelection h fuel cr rest processedFrames True s
          else if locked nd \<or> \<not> visible nd \<or> width nd < 4 \<or> height nd < 4 then
            processSelection h fuel cr rest processedFrames hasErrors s
          else if isNestedFrame s nd then
            (case convertFrameInPlace h fuel selectedNode cr s of
               None \<Rightarrow> None
             | Some (Some e, s1) \<Rightarrow> Some (Inl e, s1)
             | Some (None, s1) \<Rightarrow>
                 processSelection h fuel cr rest (processedFrames @ [selectedNode]) hasErrors s1)
          else
            (case convertTopLevelFrame h fuel selectedNode cr s of
               None \<Rightarrow> None
             | Some (Inl e, s1) \<Rightarrow> Some (Inl e, s1)
             | Some (Inr skeletonFrame, s1) \<Rightarrow>
                 processSelection h fuel cr rest (processedFrames @ [skeletonFrame]) hasErrors s1))"

text \<open>The argument of \<open>createSkeletonVersion\<close>: absent (the default applies), a
  value that is not a number or is NaN, or a number.\<close>

datatype radius_arg = RadiusUndefined | RadiusNotANumber | Radius rat

fun validRadius :: "radius_arg \<Rightarrow> bool" where
  "validRadius RadiusUndefined = True"
| "validRadius RadiusNotANumber = False"
| "validRadius (Radius c) = (\<not> c < 0)"

fun radiusValue :: "radius_arg \<Rightarrow> rat" where
  "radiusValue (Radius c) = (if c < 0 then 24 else c)"
| "radiusValue _ = 24"

text \<open>\<open>createSkeletonVersion\<close>: one run.\<close>

definition createSkeletonVersion :: "host \<Rightarrow> nat \<Rightarrow> radius_arg \<Rightarrow> state \<Rightarrow> state option" where
  "createSkeletonVersion h fuel arg s =
     (let s0 = s\<lparr>notifiedFontFamilies := {}\<rparr>;
          s1 = (if validRadius arg then s0 else notify InvalidRadiusNotice s0);
          cr = radiusValue arg
      in if selection s1 = [] then Some (notify SelectFrameNotice s1)
         else
           (case processSelection h fuel cr (selection s1) [] False s1 of
              None \<Rightarrow> None
            | Some (Inl e, s2) \<Rightarrow> Some (notify (ErrorCreating e) s2)
            | Some (Inr (processedFrames, hasErrors), s2) \<Rightarrow>
                (let s3 = (if processedFrames \<noteq> [] then
                             notify (if length processedFrames = 1 then SuccessOne
                                     else SuccessMany (length processedFrames))
                               (s2\<lparr>selection := processedFrames\<rparr>)
                           else notify NoValidFrames s2)
                 in Some (if hasErrors \<and> processedFrames \<noteq> [] then notify SomeInvalid s3
                          else s3))))"

section \<open>Well-formed documents and rewritten documents\<close>

text \<open>
  The host keeps the document a tree: references in use lie below \<open>fresh\<close>, a child
  list has no duplicates and does not hold the node itself, and the child lists and
  the parent references agree.
\<close>

definition wellFormed :: "state \<Rightarrow> bool" where
  "wellFormed s =
     ((\<forall>q. fresh s \<le> q \<longrightarrow> nodes s q = None) \<and>
      (\<forall>q nd. nodes s q = Some nd \<longrightarrow>
         distinct (children nd) \<and> q \<notin> set (children nd)
         \<and> (\<forall>c \<in> set (children nd). \<exists>cn. nodes s c = Some cn \<and> parent cn = Some q)
         \<and> (\<forall>p. parent nd = Some p \<longrightarrow> (\<exists>pn. nodes s p = Some pn \<and> q \<in> set (children pn)))))"

text \<open>
  \<open>rewritten s0 R s\<close>: the document \<open>s\<close> is \<open>s0\<close> with some nodes replaced.
  \<open>R c\<close> is what stands for the node \<open>c\<close> in its parent's child list: \<open>[c]\<close>
  when \<open>c\<close> is still there, and otherwise the new rectangles put in its place, whose
  parent is the former parent of \<open>c\<close>. Every node of \<open>s0\<close> keeps its record but for
  the child list, which is the concatenation of \<open>R\<close> over the former children in
  their order, and the parent, which a replaced node has lost.
\<close>

definition rewritten :: "state \<Rightarrow> (nat \<Rightarrow> nat list) \<Rightarrow> state \<Rightarrow> bool" where
  "rewritten s0 R s =
     (fresh s0 \<le> fresh s \<and>
      (\<forall>q nd. nodes s0 q = Some nd \<longrightarrow>
         nodes s q = Some (nd\<lparr>children := concat (map R (children nd)),
                               parent := (if R q = [q] then parent nd else None)\<rparr>)) \<and>
      (\<forall>q. R q = [q] \<or>
         (\<exists>nd p. nodes s0 q = Some nd \<and> parent nd = Some p \<and>
            (\<forall>r \<in> set (R q). fresh s0 \<le> r \<and> r < fresh s \<and>
               (\<exists>b. nodes s r = Some b \<and> ntype b = RECTANGLE \<and> parent b = Some p
                    \<and> children b = [])))))"

text \<open>
  \<open>placeholder cr el fs n i\<close> is rectangle \<open>i\<close> of the \<open>n\<close> rectangles the rewriter
  builds for the element \<open>el\<close> at radius \<open>cr\<close>: bar \<open>i\<close> of a text whose font size
  resolved to \<open>fs\<close>, or the one rectangle of another element.
  \<open>standsFor h cr s0 s q rs\<close>: the list \<open>rs\<close> is the run of rectangles built for the node
  \<open>q\<close> of \<open>s0\<close>, under consecutive new references, as many as the rewriter builds for
  it, each holding in \<open>s\<close> the record of its placeholder with the former parent of \<open>q\<close>
  as parent. \<open>placed h cr s0 R s\<close>: every list of \<open>R\<close> is the node itself or stands for it.
\<close>

definition placeholder :: "rat \<Rightarrow> node \<Rightarrow> rat \<Rightarrow> nat \<Rightarrow> nat \<Rightarrow> node" where
  "placeholder cr el fs n i =
     (if ntype el = TEXT then
        textBar cr el (skeletonHeight fs) n i
          (yCursorAt (ypos el) (lineHeightValue (lineHeight el) fs) i)
      else shapePlaceholder cr el)"

definition standsFor :: "host \<Rightarrow> rat \<Rightarrow> state \<Rightarrow> state \<Rightarrow> nat \<Rightarrow> nat list \<Rightarrow> bool" where
  "standsFor h cr s0 s q rs =
     (\<exists>nd p fs n r0. nodes s0 q = Some nd \<and> parent nd = Some p \<and> rs = [r0 ..< r0 + n]
        \<and> fresh s0 \<le> r0 \<and> r0 + n \<le> fresh s
        \<and> (if ntype nd = TEXT then
               fst (getFontSizeAndLoadFont h nd s0) = Inr fs
               \<and> lineCount (height nd) (lineHeightValue (lineHeight nd) fs) = Some n
             else n = 1)
        \<and> (\<forall>i<n. nodes s (r0 + i) = Some ((placeholder cr nd fs n i)\<lparr>parent := Some p\<rparr>)))"

definition placed :: "host \<Rightarrow> rat \<Rightarrow> state \<Rightarrow> (nat \<Rightarrow> nat list) \<Rightarrow> state \<Rightarrow> bool" where
  "placed h cr s0 R s = (\<forall>q. R q = [q] \<or> standsFor h cr s0 s q (R q))"

text \<open>\<open>inSubtree s r e\<close>: the node \<open>e\<close> is \<open>r\<close> or lies below \<open>r\<close>.\<close>

inductive inSubtree :: "state \<Rightarrow> nat \<Rightarrow> nat \<Rightarrow> bool" for s :: state where
  self: "inSubtree s r r"
| child: "nodes s r = Some nd \<Longrightarrow> c \<in> set (children nd) \<Longrightarrow> inSubtree s c e
            \<Longrightarrow> inSubtree s r e"

text \<open>
  \<open>docOnly s s'\<close>: from \<open>s\<close> to \<open>s'\<close> only the document has changed.
  \<open>logStep s s'\<close>: from \<open>s\<close> to \<open>s'\<close> the selection is the same, the set of
  notified font families has grown, and the notifications added hold one font warning
  for each family added to the set and no other font warning.
\<close>

definition docOnly :: "state \<Rightarrow> state \<Rightarrow> bool" where
  "docOnly s s' =
     (selection s' = selection s \<and> notifiedFontFamilies s' = notifiedFontFamilies s
      \<and> notifications s' = notifications s)"

definition logStep :: "state \<Rightarrow> state \<Rightarrow> bool" where
  "logStep s s' =
     (selection s' = selection s
      \<and> notifiedFontFamilies s \<subseteq> notifiedFontFamilies s'
      \<and> (\<exists>ws. notifications s' = notifications s @ ws
             \<and> (\<forall>f. count_list ws (FontWarning f)
                       = (if f \<in> notifiedFontFamilies s' - notifiedFontFamilies s then 1 else 0))))"


definition confined :: "nat \<Rightarrow> state \<Rightarrow> state \<Rightarrow> bool" where
  "confined n0 s s' =
     (fresh s \<le> fresh s' \<and> (\<forall>q<n0. nodes s' q = nodes s q) \<and>
      (\<forall>q nd. nodes s q = Some nd \<longrightarrow>
         (\<exists>nd'. nodes s' q = Some nd' \<and> name nd' = name nd \<and> xpos nd' = xpos nd
               \<and> ypos nd' = ypos nd)))"

section \<open>Example documents\<close>

definition inter :: font where
  "inter = \<lparr>family = ''Inter'', style = ''Regular''\<rparr>"

definition interBold :: font where
  "interBold = \<lparr>family = ''Inter'', style = ''Bold''\<rparr>"

definition mkNode ::
  "node_type \<Rightarrow> string \<Rightarrow> rat \<Rightarrow> rat \<Rightarrow> rat \<Rightarrow> rat \<Rightarrow> nat list \<Rightarrow> nat option \<Rightarrow> node" where
  "mkNode t nm x0 y0 w0 h0 cs p =
     \<lparr>ntype = t, name = nm, visible = True, locked = False,
      xpos = x0, ypos = y0, width = w0, height = h0, children = cs, parent = p,
      fontName = FontName inter, fontSize = FontSize 16, lineHeight = LhAuto,
      charRuns = [], fills = [], cornerRadius = 0\<rparr>"

text \<open>A caption set in two fonts, of sizes 10 and 12.\<close>

definition mixedCaption :: node where
  "mixedCaption =
     (mkNode TEXT ''Caption'' 0 0 120 43 [] None)
       \<lparr>fontName := MixedFont, fontSize := MixedSize,
        charRuns := [(FontName inter, FontSize 10), (FontName interBold, FontSize 12)]\<rparr>"

text \<open>A host on which every font loads and every instance detaches.\<close>

definition allFonts :: host where
  "allFonts = \<lparr>canLoadFont = (\<lambda>f. True), canDetach = (\<lambda>n. True)\<rparr>"

text \<open>A card holding an ellipse 40 wide and 60 high.\<close>

definition ellipseDoc :: state where
  "ellipseDoc =
     \<lparr>nodes = [1 \<mapsto> mkNode FRAME ''Card'' 0 0 200 100 [2] None,
               2 \<mapsto> mkNode ELLIPSE ''Avatar'' 10 10 40 60 [] (Some 1)],
      fresh = 3, selection = [1], notifiedFontFamilies = {}, notifications = []\<rparr>"

text \<open>A card holding a text 60 high with a line height of 20 pixels, at font size 16.\<close>

definition bodyText :: node where
  "bodyText = (mkNode TEXT ''Body'' 10 10 100 60 [] (Some 1))\<lparr>lineHeight := LhPixels 20\<rparr>"

definition paragraphDoc :: state where
  "paragraphDoc =
     \<lparr>nodes = [1 \<mapsto> mkNode FRAME ''Card'' 0 0 200 100 [2] None, 2 \<mapsto> bodyText],
      fresh = 3, selection = [1], notifiedFontFamilies = {}, notifications = []\<rparr>"

text \<open>A card holding a text 60 high whose line height is 0 pixels.\<close>

definition flatText :: node where
  "flatText = (mkNode TEXT ''Title'' 10 10 100 60 [] (Some 1))\<lparr>lineHeight := LhPixels 0\<rparr>"

definition flatTextDoc :: state where
  "flatTextDoc =
     \<lparr>nodes = [1 \<mapsto> mkNode FRAME ''Card'' 0 0 200 100 [2] None, 2 \<mapsto> flatText],
      fresh = 3, selection = [1], notifiedFontFamilies = {}, notifications = []\<rparr>"

definition noFonts :: host where
  "noFonts = \<lparr>canLoadFont = (\<lambda>f. False), canDetach = (\<lambda>n. True)\<rparr>"


text \<open>A card holding one locked text.\<close>

definition lockedTitle :: node where
  "lockedTitle = (mkNode TEXT ''Title'' 10 10 100 20 [] (Some 1))\<lparr>locked := True\<rparr>"

definition lockedTitleDoc :: state where
  "lockedTitleDoc =
     \<lparr>nodes = [1 \<mapsto> mkNode FRAME ''Card'' 0 0 200 100 [2] None, 2 \<mapsto> lockedTitle],
      fresh = 3, selection = [1], notifiedFontFamilies = {}, notifications = []\<rparr>"

text \<open>A card holding a locked rectangle.\<close>

definition lockedPicture :: node where
  "lockedPicture = (mkNode RECTANGLE ''Picture'' 10 10 50 50 [] (Some 1))\<lparr>locked := True\<rparr>"

definition lockedPictureDoc :: state where
  "lockedPictureDoc =
     \<lparr>nodes = [1 \<mapsto> mkNode FRAME ''Card'' 0 0 200 100 [2] None, 2 \<mapsto> lockedPicture],
      fresh = 3, selection = [1], notifiedFontFamilies = {}, notifications = []\<rparr>"

text \<open>A card holding two texts in the same family, on a host where no font loads.\<close>

definition twoTextsDoc :: state where
  "twoTextsDoc =
     \<lparr>nodes = [0 \<mapsto> mkNode FRAME ''Screen'' 0 0 400 400 [1] None,
               1 \<mapsto> mkNode FRAME ''Card'' 0 0 200 100 [2, 3] (Some 0),
               2 \<mapsto> mkNode TEXT ''Title'' 10 10 100 20 [] (Some 1),
               3 \<mapsto> mkNode TEXT ''Subtitle'' 10 40 100 20 [] (Some 1)],
      fresh = 4, selection = [1], notifiedFontFamilies = {''Inter''},
      notifications = [FontWarning ''Inter'', SuccessOne]\<rparr>"

text \<open>A card holding a boolean operation that holds a text, for a host where no font
  loads.\<close>

definition unionLabel :: node where
  "unionLabel = mkNode TEXT ''Label'' 0 0 100 20 [] (Some 2)"

definition unionDoc :: state where
  "unionDoc =
     \<lparr>nodes = [1 \<mapsto> mkNode FRAME ''Card'' 0 0 200 100 [2] None,
               2 \<mapsto> mkNode BOOLEAN_OPERATION ''Union'' 10 10 100 40 [3] (Some 1),
               3 \<mapsto> unionLabel],
      fresh = 4, selection = [1], notifiedFontFamilies = {}, notifications = []\<rparr>"

text \<open>A screen holding an instance and a card with a rectangle, both selected, on a
  host where the instance cannot be detached.\<close>

definition twoRootsDoc :: state where
  "twoRootsDoc =
     \<lparr>nodes = [0 \<mapsto> mkNode FRAME ''Screen'' 0 0 400 400 [1, 2] None,
               1 \<mapsto> mkNode INSTANCE ''Button'' 0 0 100 40 [] (Some 0),
               2 \<mapsto> mkNode FRAME ''Card'' 0 50 200 100 [3] (Some 0),
               3 \<mapsto> mkNode RECTANGLE ''Picture'' 10 10 50 50 [] (Some 2)],
      fresh = 4, selection = [1, 2], notifiedFontFamilies = {}, notifications = []\<rparr>"

definition noDetach :: host where
  "noDetach = \<lparr>canLoadFont = (\<lambda>f. True), canDetach = (\<lambda>n. False)\<rparr>"


text \<open>The object of a node that has been removed: every getter throws.\<close>

definition removedObject :: host_object where
  "removedObject = \<lparr>getVisible = Throws, getWidth = Throws, getHeight = Throws, getType = Throws\<rparr>"

section \<open>The classifier and the text metrics\<close>

lemma typeName_convertible:
  "(JString (typeName t) \<in> (\<lambda>c. JString (typeName c)) ` set convertibleTypes)
     = (t \<in> set convertibleTypes)"
  by (cases t) (simp_all add: convertibleTypes_def)

lemma typeName_names:
  "(JString t \<in> (\<lambda>c. JString (typeName c)) ` set convertibleTypes)
     = (t \<in> {''TEXT'', ''RECTANGLE'', ''ELLIPSE'', ''VECTOR'', ''POLYGON'', ''STAR'',
              ''BOOLEAN_OPERATION'', ''LINE''})"
  by (simp add: convertibleTypes_def)

lemma typeName_other:
  "\<forall>t. v \<noteq> JString t \<Longrightarrow> v \<notin> (\<lambda>c. JString (typeName c)) ` set convertibleTypes"
  by blast

lemma shouldConvert_objectOf:
  "shouldConvertToSkeletonJS (map_option objectOf x) = shouldConvertToSkeleton x"
proof (cases x)
  case None
  then show ?thesis
    by (simp add: shouldConvertToSkeletonJS_def shouldConvertTry_def shouldConvertToSkeleton_def)
next
  case (Some nd)
  then show ?thesis
    by (simp add: shouldConvertToSkeletonJS_def shouldConvertTry_def shouldConvertToSkeleton_def
        objectOf_def typeName_convertible)
qed

lemma shouldConvertJS_closed:
  "shouldConvertToSkeletonJS (Some n) =
     (\<exists>v w hh t. getVisible n = Returns v \<and> v \<noteq> JBool False
        \<and> getWidth n = Returns w \<and> isNumber w \<and> \<not> below4 w
        \<and> getHeight n = Returns hh \<and> isNumber hh \<and> \<not> below4 hh
        \<and> getType n = Returns (JString t)
        \<and> t \<in> {''TEXT'', ''RECTANGLE'', ''ELLIPSE'', ''VECTOR'', ''POLYGON'', ''STAR'',
                ''BOOLEAN_OPERATION'', ''LINE''})"
proof (cases "getVisible n")
  case Throws
  then show ?thesis by (simp add: shouldConvertToSkeletonJS_def shouldConvertTry_def)
next
  case v: (Returns v)
  show ?thesis
  proof (cases "getWidth n")
    case Throws
    then show ?thesis using v by (simp add: shouldConvertToSkeletonJS_def shouldConvertTry_def)
  next
    case w: (Returns w)
    show ?thesis
    proof (cases "getHeight n")
      case Throws
      then show ?thesis using v w
        by (simp add: shouldConvertToSkeletonJS_def shouldConvertTry_def)
    next
      case hh: (Returns hh)
      show ?thesis
      proof (cases "getType n")
        case Throws
        then show ?thesis using v w hh
          by (simp add: shouldConvertToSkeletonJS_def shouldConvertTry_def)
      next
        case ty: (Returns ty)
        show ?thesis
        proof (cases "\<exists>t. ty = JString t")
          case True
          then obtain t where t: "ty = JString t" by blast
          show ?thesis using v w hh ty t typeName_names[of t]
            by (simp add: shouldConvertToSkeletonJS_def shouldConvertTry_def del: insert_iff)
        next
          case False
          then have "ty \<notin> (\<lambda>c. JString (typeName c)) ` set convertibleTypes"
            using typeName_other[of ty] by simp
          then show ?thesis using v w hh ty False
            by (simp add: shouldConvertToSkeletonJS_def shouldConvertTry_def del: insert_iff)
        qed
      qed
    qed
  qed
qed

text \<open>
  C7. The classifier, on what the host hands it. It is false for the null node, for a
  node whose \<open>visible\<close> is \<open>false\<close>, and for a node whose width or height is not a
  number or is below 4; otherwise it is true exactly when the type is one of the eight
  convertible types. It never throws: when a property read throws inside the \<open>try\<close>
  block the function returns \<open>false\<close>, whichever property it is. On the object of a
  node record it is the classifier on records used by the collector, which is false
  for an invisible node and for a node narrower or lower than 4 and otherwise true
  exactly for the eight types.
\<close>

theorem shouldConvertToSkeleton_classifies:
  "shouldConvertToSkeletonJS None = False
   \<and> shouldConvertToSkeletonJS (Some n) =
       (\<exists>v w hh t. getVisible n = Returns v \<and> v \<noteq> JBool False
          \<and> getWidth n = Returns w \<and> isNumber w \<and> \<not> below4 w
          \<and> getHeight n = Returns hh \<and> isNumber hh \<and> \<not> below4 hh
          \<and> getType n = Returns (JString t)
          \<and> t \<in> {''TEXT'', ''RECTANGLE'', ''ELLIPSE'', ''VECTOR'', ''POLYGON'', ''STAR'',
                  ''BOOLEAN_OPERATION'', ''LINE''})
   \<and> (\<forall>e. shouldConvertTry node = Inl e \<longrightarrow> shouldConvertToSkeletonJS node = False)
   \<and> (getVisible n = Throws \<or> getWidth n = Throws \<or> getHeight n = Throws \<or> getType n = Throws
        \<longrightarrow> shouldConvertToSkeletonJS (Some n) = False)
   \<and> shouldConvertToSkeletonJS (map_option objectOf x) = shouldConvertToSkeleton x
   \<and> shouldConvertToSkeleton None = False
   \<and> shouldConvertToSkeleton (Some nd) =
       (visible nd \<and> 4 \<le> width nd \<and> 4 \<le> height nd
        \<and> ntype nd \<in> {TEXT, RECTANGLE, ELLIPSE, VECTOR, POLYGON, STAR, BOOLEAN_OPERATION, LINE})"
proof -
  have a: "shouldConvertToSkeletonJS None = False"
    by (simp add: shouldConvertToSkeletonJS_def shouldConvertTry_def)
  have c: "\<forall>e. shouldConvertTry node = Inl e \<longrightarrow> shouldConvertToSkeletonJS node = False"
    by (simp add: shouldConvertToSkeletonJS_def)
  have d: "getVisible n = Throws \<or> getWidth n = Throws \<or> getHeight n = Throws \<or> getType n = Throws
        \<longrightarrow> shouldConvertToSkeletonJS (Some n) = False"
  proof
    assume th: "getVisible n = Throws \<or> getWidth n = Throws \<or> getHeight n = Throws
                  \<or> getType n = Throws"
    show "shouldConvertToSkeletonJS (Some n) = False"
    proof
      assume "shouldConvertToSkeletonJS (Some n)"
      then obtain v w hh t where "getVisible n = Returns v" "getWidth n = Returns w"
        "getHeight n = Returns hh" "getType n = Returns (JString t)"
        unfolding shouldConvertJS_closed by blast
      with th show False by simp
    qed simp
  qed
  have f: "shouldConvertToSkeleton None = False"
    "shouldConvertToSkeleton (Some nd) =
       (visible nd \<and> 4 \<le> width nd \<and> 4 \<le> height nd
        \<and> ntype nd \<in> {TEXT, RECTANGLE, ELLIPSE, VECTOR, POLYGON, STAR, BOOLEAN_OPERATION, LINE})"
    by (auto simp: shouldConvertToSkeleton_def convertibleTypes_def)
  from a shouldConvertJS_closed[of n] c d shouldConvert_objectOf[of x] f show ?thesis
    by (intro conjI)
qed

theorem shouldConvertToSkeleton_classifies_witness:
  "shouldConvertTry (Some removedObject) = Inl (Thrown ''visible'')
   \<and> shouldConvertToSkeletonJS (Some removedObject) = False
   \<and> shouldConvertTry (Some ((objectOf lockedPicture)\<lparr>getType := Throws\<rparr>)) = Inl (Thrown ''type'')
   \<and> shouldConvertToSkeletonJS (Some ((objectOf lockedPicture)\<lparr>getType := Throws\<rparr>)) = False"
proof -
  have t1: "shouldConvertTry (Some removedObject) = Inl (Thrown ''visible'')"
    by (simp add: shouldConvertTry_def removedObject_def)
  have t2: "shouldConvertTry (Some ((objectOf lockedPicture)\<lparr>getType := Throws\<rparr>))
              = Inl (Thrown ''type'')"
    by (simp add: shouldConvertTry_def objectOf_def lockedPicture_def mkNode_def)
  note T = shouldConvertToSkeleton_classifies
  from T[where node = "Some removedObject"] t1
  have r1: "shouldConvertToSkeletonJS (Some removedObject) = False" by blast
  from T[where node = "Some ((objectOf lockedPicture)\<lparr>getType := Throws\<rparr>)"] t2
  have r2: "shouldConvertToSkeletonJS (Some ((objectOf lockedPicture)\<lparr>getType := Throws\<rparr>)) = False"
    by blast
  from t1 t2 r1 r2 show ?thesis by (intro conjI)
qed

text \<open>
  C8. The line height in pixels is \<open>fontSize * 1.2\<close> when the node's line height is
  absent, automatic or mixed, the stored value when it is given in pixels, and
  \<open>fontSize * (percent / 100)\<close> when it is given in percent, the operators being
  those of the source on doubles.
\<close>

theorem lineHeightValue_resolves:
  "lineHeightValue LhAbsent fs = jsTimes fs (toDouble (12 / 10)) \<and>
   lineHeightValue LhAuto fs = jsTimes fs (toDouble (12 / 10)) \<and>
   lineHeightValue LhMixed fs = jsTimes fs (toDouble (12 / 10)) \<and>
   lineHeightValue (LhPixels v) fs = v \<and>
   lineHeightValue (LhPercent v) fs = jsTimes fs (jsDivide v 100)"
  by simp

text \<open>The running maximum of the scan starts at the fallback size 16, so the size
  returned for mixed fonts is never below 16.\<close>

lemma scanRanges_ge: "m \<le> scanRanges rs m"
proof (induction rs m rule: scanRanges.induct)
  case (3 f sz rs maxFontSize)
  then show ?case by (simp split: if_splits)
qed simp_all

text \<open>
  C3. For the caption in two fonts of sizes 10 and 12 the size returned is 16, not the
  largest size in use, 12.
\<close>

theorem mixed_font_size_starts_at_fallback:
  "fst (getFontSizeAndLoadFont h mixedCaption s) = Inr 16"
  by (simp add: getFontSizeAndLoadFont_def mixedCaption_def mkNode_def)

section \<open>The host operations and the loop over the lines\<close>

lemma nodes_setNode [simp]:
  "nodes (setNode i f s) j = (if j = i then map_option f (nodes s i) else nodes s j)"
  by (simp add: setNode_def)

lemma fields_setNode [simp]:
  "fresh (setNode i f s) = fresh s"
  "selection (setNode i f s) = selection s"
  "notifiedFontFamilies (setNode i f s) = notifiedFontFamilies s"
  "notifications (setNode i f s) = notifications s"
  by (simp_all add: setNode_def)

lemma indexOf_bounds: "- 1 \<le> indexOf xs a \<and> indexOf xs a < int (length xs)"
  by (induction xs) (auto simp: Let_def)

lemma indexOf_mem:
  "a \<in> set xs \<Longrightarrow> 0 \<le> indexOf xs a \<and> nat (indexOf xs a) < length xs
     \<and> xs ! nat (indexOf xs a) = a \<and> a \<notin> set (take (nat (indexOf xs a)) xs)"
proof (induction xs)
  case Nil
  then show ?case by simp
next
  case (Cons b bs)
  show ?case
  proof (cases "b = a")
    case True
    then show ?thesis by simp
  next
    case False
    with Cons have IH: "0 \<le> indexOf bs a" "nat (indexOf bs a) < length bs"
      "bs ! nat (indexOf bs a) = a" "a \<notin> set (take (nat (indexOf bs a)) bs)"
      by auto
    have "nat (indexOf bs a + 1) = Suc (nat (indexOf bs a))"
      using IH(1) by simp
    with False IH show ?thesis by (simp add: Let_def)
  qed
qed

lemma ins_block:
  "k \<le> length xs \<Longrightarrow>
     take (Suc k) (take k xs @ [r] @ drop k xs) @ [Suc r ..< Suc r + m]
       @ drop (Suc k) (take k xs @ [r] @ drop k xs)
     = take k xs @ [r ..< r + Suc m] @ drop k xs"
  by (simp add: min_def upt_conv_Cons del: upt_Suc)

lemma barLoop_effect:
  assumes "nodes s p = Some pn" "p < fresh s" "0 \<le> idx"
    "nat idx + i \<le> length (children pn)"
  shows "\<exists>F. barLoop cr el p idx lh sh (i + m) i yc s
                = (None, s\<lparr>nodes := F, fresh := fresh s + m\<rparr>)
           \<and> (\<forall>q. F q =
                 (if q = p then
                    Some (pn\<lparr>children := take (nat idx + i) (children pn)
                                          @ [fresh s ..< fresh s + m]
                                          @ drop (nat idx + i) (children pn)\<rparr>)
                  else if fresh s \<le> q \<and> q < fresh s + m then
                    Some ((textBar cr el sh (i + m) (i + (q - fresh s))
                             (yCursorAt yc lh (q - fresh s)))\<lparr>parent := Some p\<rparr>)
                  else nodes s q))"
  using assms
proof (induction m arbitrary: i s pn yc)
  case 0
  have "barLoop cr el p idx lh sh (i + 0) i yc s = (None, s)"
    by (simp add: barLoop.simps)
  then show ?case
    using 0 by (intro exI[of _ "nodes s"]) auto
next
  case (Suc m)
  let ?n = "i + Suc m"
  let ?r = "fresh s"
  let ?b = "textBar cr el sh ?n i yc"
  let ?s1 = "s\<lparr>nodes := (nodes s)(?r \<mapsto> ?b), fresh := Suc ?r\<rparr>"
  let ?k = "nat idx + i"
  let ?cs = "take ?k (children pn) @ [?r] @ drop ?k (children pn)"
  let ?pn = "pn\<lparr>children := ?cs\<rparr>"
  let ?s2 = "setNode ?r (\<lambda>n. n\<lparr>parent := Some p\<rparr>)
                  (setNode p (\<lambda>n. n\<lparr>children := take (nat (idx + int i)) (children n) @ [?r]
                                                   @ drop (nat (idx + int i)) (children n)\<rparr>) ?s1)"
  have pr: "p \<noteq> ?r" using Suc.prems by simp
  have nidx: "nat (idx + int i) = ?k" using Suc.prems by (simp add: nat_add_distrib)
  have ins: "insertChild p (idx + int i) ?r ?s1 = (None, ?s2)"
    using Suc.prems pr by (simp add: insertChild_def)
  have n': "?n = Suc i + m" by simp
  have step: "barLoop cr el p idx lh sh ?n i yc s
                = barLoop cr el p idx lh sh (Suc i + m) (Suc i) (jsPlus yc lh) ?s2"
    unfolding n'[symmetric] using ins by (subst barLoop.simps) (simp add: allocate_def)
  have n2: "nodes ?s2 p = Some ?pn" using Suc.prems pr by (simp add: nidx)
  have p2: "p < fresh ?s2" using Suc.prems by simp
  have l2: "nat idx + Suc i \<le> length (children ?pn)" using Suc.prems by simp
  from Suc.IH[OF n2 p2 Suc.prems(3) l2, of "jsPlus yc lh"]
  obtain F where F: "barLoop cr el p idx lh sh (Suc i + m) (Suc i) (jsPlus yc lh) ?s2
                       = (None, ?s2\<lparr>nodes := F, fresh := fresh ?s2 + m\<rparr>)"
    and Fq: "\<And>q. F q =
                 (if q = p then
                    Some (?pn\<lparr>children := take (nat idx + Suc i) (children ?pn)
                                          @ [fresh ?s2 ..< fresh ?s2 + m]
                                          @ drop (nat idx + Suc i) (children ?pn)\<rparr>)
                  else if fresh ?s2 \<le> q \<and> q < fresh ?s2 + m then
                    Some ((textBar cr el sh (Suc i + m) (Suc i + (q - fresh ?s2))
                             (yCursorAt (jsPlus yc lh) lh (q - fresh ?s2)))\<lparr>parent := Some p\<rparr>)
                  else nodes ?s2 q)"
    by blast
  have eqs: "?s2\<lparr>nodes := F, fresh := fresh ?s2 + m\<rparr>
               = s\<lparr>nodes := F, fresh := fresh s + Suc m\<rparr>"
    by (simp add: setNode_def)
  have fs2: "fresh ?s2 = Suc ?r" by simp
  note Fq' = Fq[unfolded fs2 n'[symmetric]]
  have ch: "take (nat idx + Suc i) (children ?pn) @ [Suc ?r ..< Suc ?r + m]
              @ drop (nat idx + Suc i) (children ?pn)
            = take ?k (children pn) @ [?r ..< ?r + Suc m] @ drop ?k (children pn)"
  proof -
    have c: "children ?pn = ?cs" by simp
    have e: "nat idx + Suc i = Suc ?k" by simp
    show ?thesis unfolding c e by (rule ins_block) (use Suc.prems in simp)
  qed
  have res: "barLoop cr el p idx lh sh ?n i yc s
               = (None, s\<lparr>nodes := F, fresh := fresh s + Suc m\<rparr>)"
    using step F eqs by (simp only:)
  have "\<forall>q. F q =
                 (if q = p then
                    Some (pn\<lparr>children := take ?k (children pn)
                                          @ [?r ..< ?r + Suc m]
                                          @ drop ?k (children pn)\<rparr>)
                  else if ?r \<le> q \<and> q < ?r + Suc m then
                    Some ((textBar cr el sh ?n (i + (q - ?r))
                             (yCursorAt yc lh (q - ?r)))\<lparr>parent := Some p\<rparr>)
                  else nodes s q)"
  proof
    fix q
    consider "q = p" | "q = ?r" | "q \<noteq> p" "Suc ?r \<le> q" "q < ?r + Suc m"
      | "q \<noteq> p" "q < ?r" | "q \<noteq> p" "?r + Suc m \<le> q"
      by linarith
    then show "F q =
                 (if q = p then
                    Some (pn\<lparr>children := take ?k (children pn)
                                          @ [?r ..< ?r + Suc m]
                                          @ drop ?k (children pn)\<rparr>)
                  else if ?r \<le> q \<and> q < ?r + Suc m then
                    Some ((textBar cr el sh ?n (i + (q - ?r))
                             (yCursorAt yc lh (q - ?r)))\<lparr>parent := Some p\<rparr>)
                  else nodes s q)"
    proof cases
      case 1
      have "F p = Some (?pn\<lparr>children := take (nat idx + Suc i) (children ?pn)
                                          @ [Suc ?r ..< Suc ?r + m]
                                          @ drop (nat idx + Suc i) (children ?pn)\<rparr>)"
        using Fq'[of p] by (simp only: if_True simp_thms)
      also have "\<dots> = Some (pn\<lparr>children := take ?k (children pn)
                                          @ [?r ..< ?r + Suc m]
                                          @ drop ?k (children pn)\<rparr>)"
        unfolding ch by simp
      finally show ?thesis using 1 by (simp only: if_True simp_thms)
    next
      case 2
      then have "F q = nodes ?s2 ?r"
        using pr by (simp add: Fq')
      then show ?thesis using 2 pr by simp
    next
      case 3
      then have a: "Suc i + (q - Suc ?r) = i + (q - ?r)"
        by (simp_all add: Suc_diff_le)
      from 3 have "q - ?r = Suc (q - Suc ?r)" by simp
      then have b: "yCursorAt (jsPlus yc lh) lh (q - Suc ?r) = yCursorAt yc lh (q - ?r)"
        by simp
      from 3 have "F q = Some ((textBar cr el sh ?n (Suc i + (q - Suc ?r))
                             (yCursorAt (jsPlus yc lh) lh (q - Suc ?r)))\<lparr>parent := Some p\<rparr>)"
        by (simp add: Fq')
      with 3 show ?thesis unfolding a b by simp
    next
      case 4
      then have "F q = nodes ?s2 q" by (simp add: Fq')
      with 4 show ?thesis by simp
    next
      case 5
      then have "F q = nodes ?s2 q" by (simp add: Fq')
      with 5 show ?thesis by simp
    qed
  qed
  with res show ?case by blast
qed

section \<open>One call of the rewriter\<close>

lemma getFont_ok: "getFontSizeAndLoadFont h el s = (Inr fs, s1) \<Longrightarrow> s1 = s"
  by (auto simp: getFontSizeAndLoadFont_def Let_def split: font_name.splits if_splits)

lemma remove1_block:
  assumes "k < length cs" "cs ! k = e" "e \<notin> set (take k cs)" "e \<notin> set news"
  shows "remove1 e (take k cs @ news @ drop k cs) = take k cs @ news @ drop (Suc k) cs"
proof -
  have "drop k cs = e # drop (Suc k) cs"
    using assms(1,2) Cons_nth_drop_Suc[of k cs] by simp
  then show ?thesis using assms(3,4) by (simp add: remove1_append)
qed

lemma convert_text_step:
  assumes el: "nodes s e = Some el" "ntype el = TEXT" "parent el = Some p"
    and pn: "nodes s p = Some pn" "e \<in> set (children pn)"
    and lt: "e < fresh s" "p < fresh s" "e \<noteq> p"
    and font: "getFontSizeAndLoadFont h el s = (Inr fs, s1)"
    and lc: "lineCount (height el) (lineHeightValue (lineHeight el) fs) = Some n"
  shows "\<exists>F. convertElementToSkeleton h e cr s
                = Some (None, s\<lparr>nodes := F, fresh := fresh s + n\<rparr>)
           \<and> (\<forall>q. F q =
                 (if q = e then Some (el\<lparr>parent := None\<rparr>)
                  else if q = p then
                    Some (pn\<lparr>children := take (nat (indexOf (children pn) e)) (children pn)
                                          @ [fresh s ..< fresh s + n]
                                          @ drop (Suc (nat (indexOf (children pn) e))) (children pn)\<rparr>)
                  else if fresh s \<le> q \<and> q < fresh s + n then
                    Some ((textBar cr el (skeletonHeight fs) n (q - fresh s)
                             (yCursorAt (ypos el) (lineHeightValue (lineHeight el) fs) (q - fresh s)))
                          \<lparr>parent := Some p\<rparr>)
                  else nodes s q))"
proof -
  let ?cs = "children pn"
  let ?idx = "indexOf ?cs e"
  let ?k = "nat ?idx"
  let ?lh = "lineHeightValue (lineHeight el) fs"
  let ?r = "fresh s"
  have s1: "s1 = s" using font by (rule getFont_ok)
  from indexOf_mem[OF pn(2)] have idx: "0 \<le> ?idx" "?k < length ?cs" "?cs ! ?k = e"
    "e \<notin> set (take ?k ?cs)" by auto
  have "nat ?idx + 0 \<le> length ?cs" using idx by simp
  from barLoop_effect[OF pn(1) lt(2) idx(1) this, of cr el ?lh "skeletonHeight fs" n "ypos el"]
  obtain F0 where bl: "barLoop cr el p ?idx ?lh (skeletonHeight fs) n 0 (ypos el) s
                         = (None, s\<lparr>nodes := F0, fresh := ?r + n\<rparr>)"
    and F0: "\<And>q. F0 q =
                 (if q = p then
                    Some (pn\<lparr>children := take ?k ?cs @ [?r ..< ?r + n] @ drop ?k ?cs\<rparr>)
                  else if ?r \<le> q \<and> q < ?r + n then
                    Some ((textBar cr el (skeletonHeight fs) n (q - ?r)
                             (yCursorAt (ypos el) ?lh (q - ?r)))\<lparr>parent := Some p\<rparr>)
                  else nodes s q)"
    by auto
  let ?s2 = "s\<lparr>nodes := F0, fresh := ?r + n\<rparr>"
  have F0e: "F0 e = Some el" using F0[of e] lt el by simp
  have F0p: "F0 p = Some (pn\<lparr>children := take ?k ?cs @ [?r ..< ?r + n] @ drop ?k ?cs\<rparr>)"
    using F0[of p] by simp
  have enew: "e \<notin> set [?r ..< ?r + n]" using lt by simp
  have rm: "remove1 e (take ?k ?cs @ [?r ..< ?r + n] @ drop ?k ?cs)
              = take ?k ?cs @ [?r ..< ?r + n] @ drop (Suc ?k) ?cs"
    by (rule remove1_block[OF idx(2,3,4) enew])
  let ?F = "nodes (removeNode e ?s2)"
  have rn: "removeNode e ?s2 = s\<lparr>nodes := ?F, fresh := ?r + n\<rparr>"
    using F0e el by (simp add: removeNode_def setNode_def)
  have conv: "convertElementToSkeleton h e cr s = Some (None, removeNode e ?s2)"
    using el pn font s1 lc bl by (simp add: convertElementToSkeleton_def Let_def)
  have "\<forall>q. ?F q =
                 (if q = e then Some (el\<lparr>parent := None\<rparr>)
                  else if q = p then
                    Some (pn\<lparr>children := take ?k ?cs @ [?r ..< ?r + n] @ drop (Suc ?k) ?cs\<rparr>)
                  else if ?r \<le> q \<and> q < ?r + n then
                    Some ((textBar cr el (skeletonHeight fs) n (q - ?r)
                             (yCursorAt (ypos el) ?lh (q - ?r)))\<lparr>parent := Some p\<rparr>)
                  else nodes s q)"
  proof
    fix q
    have Fq: "?F q = (if q = e then Some (el\<lparr>parent := None\<rparr>)
                      else if q = p then
                        Some (pn\<lparr>children := remove1 e (take ?k ?cs @ [?r ..< ?r + n] @ drop ?k ?cs)\<rparr>)
                      else F0 q)"
      using F0e F0p el lt by (simp add: removeNode_def)
    show "?F q =
                 (if q = e then Some (el\<lparr>parent := None\<rparr>)
                  else if q = p then
                    Some (pn\<lparr>children := take ?k ?cs @ [?r ..< ?r + n] @ drop (Suc ?k) ?cs\<rparr>)
                  else if ?r \<le> q \<and> q < ?r + n then
                    Some ((textBar cr el (skeletonHeight fs) n (q - ?r)
                             (yCursorAt (ypos el) ?lh (q - ?r)))\<lparr>parent := Some p\<rparr>)
                  else nodes s q)"
      unfolding Fq rm using F0[of q] by simp
  qed
  with conv rn show ?thesis by (intro exI[of _ ?F]) (simp only:, blast)
qed


lemma convert_shape_step:
  assumes el: "nodes s e = Some el" "ntype el \<noteq> TEXT" "parent el = Some p"
    and pn: "nodes s p = Some pn" "e \<in> set (children pn)"
    and lt: "e < fresh s" "p < fresh s" "e \<noteq> p"
  shows "\<exists>F. convertElementToSkeleton h e cr s
                = Some (None, s\<lparr>nodes := F, fresh := Suc (fresh s)\<rparr>)
           \<and> (\<forall>q. F q =
                 (if q = e then Some (el\<lparr>parent := None\<rparr>)
                  else if q = p then
                    Some (pn\<lparr>children := take (nat (indexOf (children pn) e)) (children pn)
                                          @ [fresh s]
                                          @ drop (Suc (nat (indexOf (children pn) e))) (children pn)\<rparr>)
                  else if q = fresh s then Some ((shapePlaceholder cr el)\<lparr>parent := Some p\<rparr>)
                  else nodes s q))"
proof -
  let ?cs = "children pn"
  let ?idx = "indexOf ?cs e"
  let ?k = "nat ?idx"
  let ?r = "fresh s"
  from indexOf_mem[OF pn(2)] have idx: "0 \<le> ?idx" "?k < length ?cs" "?cs ! ?k = e"
    "e \<notin> set (take ?k ?cs)" by auto
  have pr: "p \<noteq> ?r" "e \<noteq> ?r" using lt by simp_all
  let ?s1 = "s\<lparr>nodes := (nodes s)(?r \<mapsto> shapePlaceholder cr el), fresh := Suc ?r\<rparr>"
  let ?s2 = "setNode ?r (\<lambda>n. n\<lparr>parent := Some p\<rparr>)
               (setNode p (\<lambda>n. n\<lparr>children := take ?k (children n) @ [?r]
                                                @ drop ?k (children n)\<rparr>) ?s1)"
  have ins: "insertChild p ?idx ?r ?s1 = (None, ?s2)"
    using pn pr idx by (simp add: insertChild_def)
  have conv: "convertElementToSkeleton h e cr s = Some (None, removeNode e ?s2)"
    using el pn ins by (simp add: convertElementToSkeleton_def Let_def allocate_def)
  have enew: "e \<notin> set [?r]" using pr by simp
  have rm: "remove1 e (take ?k ?cs @ [?r] @ drop ?k ?cs)
              = take ?k ?cs @ [?r] @ drop (Suc ?k) ?cs"
    by (rule remove1_block[OF idx(2,3,4) enew])
  let ?F = "nodes (removeNode e ?s2)"
  have e2: "nodes ?s2 e = Some el" using el pr lt by simp
  have rn: "removeNode e ?s2 = s\<lparr>nodes := ?F, fresh := Suc ?r\<rparr>"
    using e2 el by (simp add: removeNode_def setNode_def)
  have "\<forall>q. ?F q =
                 (if q = e then Some (el\<lparr>parent := None\<rparr>)
                  else if q = p then
                    Some (pn\<lparr>children := take ?k ?cs @ [?r] @ drop (Suc ?k) ?cs\<rparr>)
                  else if q = ?r then Some ((shapePlaceholder cr el)\<lparr>parent := Some p\<rparr>)
                  else nodes s q)"
  proof
    fix q
    have Fq: "?F q = (if q = e then Some (el\<lparr>parent := None\<rparr>)
                      else if q = p then
                        Some (pn\<lparr>children := remove1 e (take ?k ?cs @ [?r] @ drop ?k ?cs)\<rparr>)
                      else if q = ?r then Some ((shapePlaceholder cr el)\<lparr>parent := Some p\<rparr>)
                      else nodes s q)"
      using e2 el pn lt pr by (simp add: removeNode_def)
    show "?F q =
                 (if q = e then Some (el\<lparr>parent := None\<rparr>)
                  else if q = p then
                    Some (pn\<lparr>children := take ?k ?cs @ [?r] @ drop (Suc ?k) ?cs\<rparr>)
                  else if q = ?r then Some ((shapePlaceholder cr el)\<lparr>parent := Some p\<rparr>)
                  else nodes s q)"
      unfolding Fq rm by simp
  qed
  with conv rn show ?thesis by (intro exI[of _ ?F]) (simp only:, blast)
qed

lemma getFont_fail:
  assumes "getFontSizeAndLoadFont h el s = (Inl x, s1)"
  shows "nodes s1 = nodes s \<and> fresh s1 = fresh s \<and> selection s1 = selection s
         \<and> familyName (fontName el) \<in> notifiedFontFamilies s1"
  using assms
  by (auto simp: getFontSizeAndLoadFont_def Let_def notify_def
           split: font_name.splits if_splits)

lemma textBar_shape [simp]:
  "ntype (textBar cr el sh n i yc) = RECTANGLE" "children (textBar cr el sh n i yc) = []"
  by (simp_all add: textBar_def defaultRectangle_def)

lemma shapePlaceholder_shape [simp]:
  "ntype (shapePlaceholder cr el) = RECTANGLE" "children (shapePlaceholder cr el) = []"
  by (simp_all add: shapePlaceholder_def defaultRectangle_def)

text \<open>What one call of the rewriter does to a node that sits in its parent's list.\<close>

lemma convert_step:
  assumes el: "nodes s e = Some el" "parent el = Some p"
    and pn: "nodes s p = Some pn" "e \<in> set (children pn)"
    and lt: "e < fresh s" "p < fresh s" "e \<noteq> p"
    and res: "convertElementToSkeleton h e cr s = Some (err, s')"
  shows "(ntype el = TEXT \<and> (\<exists>x. fst (getFontSizeAndLoadFont h el s) = Inl x)
           \<and> nodes s' = nodes s \<and> fresh s' = fresh s
           \<and> familyName (fontName el) \<in> notifiedFontFamilies s')
       \<or> (err = None
           \<and> (ntype el = TEXT \<longrightarrow> (\<exists>fs. fst (getFontSizeAndLoadFont h el s) = Inr fs))
           \<and> (\<exists>n. fresh s' = fresh s + n
                \<and> (0 < height el \<longrightarrow> 0 < n)
                \<and> nodes s' e = Some (el\<lparr>parent := None\<rparr>)
                \<and> nodes s' p =
                    Some (pn\<lparr>children := take (nat (indexOf (children pn) e)) (children pn)
                                          @ [fresh s ..< fresh s + n]
                                          @ drop (Suc (nat (indexOf (children pn) e))) (children pn)\<rparr>)
                \<and> (\<forall>q. fresh s \<le> q \<and> q < fresh s + n \<longrightarrow>
                      (\<exists>b. nodes s' q = Some b \<and> ntype b = RECTANGLE \<and> parent b = Some p
                           \<and> children b = []))
                \<and> (\<forall>q. q \<noteq> e \<and> q \<noteq> p \<and> \<not> (fresh s \<le> q \<and> q < fresh s + n) \<longrightarrow>
                      nodes s' q = nodes s q)))"
proof (cases "ntype el = TEXT")
  case True
  obtain r s1 where g: "getFontSizeAndLoadFont h el s = (r, s1)" by (cases "getFontSizeAndLoadFont h el s")
  show ?thesis
  proof (cases r)
    case (Inl x)
    then have "convertElementToSkeleton h e cr s = Some (None, s1)"
      using el pn True g by (simp add: convertElementToSkeleton_def Let_def)
    with res have "s' = s1" by simp
    with getFont_fail[OF g[unfolded Inl]] True g Inl show ?thesis by simp
  next
    case (Inr fs)
    note g' = g[unfolded Inr]
    have s1: "s1 = s" using g' by (rule getFont_ok)
    show ?thesis
    proof (cases "lineCount (height el) (lineHeightValue (lineHeight el) fs)")
      case None
      then have "convertElementToSkeleton h e cr s = None"
        using el pn True g' by (simp add: convertElementToSkeleton_def Let_def)
      with res show ?thesis by simp
    next
      case (Some n)
      from convert_text_step[OF el(1) True el(2) pn lt g' Some, of cr]
      obtain F where c: "convertElementToSkeleton h e cr s
                = Some (None, s\<lparr>nodes := F, fresh := fresh s + n\<rparr>)"
        and F: "\<And>q. F q =
                 (if q = e then Some (el\<lparr>parent := None\<rparr>)
                  else if q = p then
                    Some (pn\<lparr>children := take (nat (indexOf (children pn) e)) (children pn)
                                          @ [fresh s ..< fresh s + n]
                                          @ drop (Suc (nat (indexOf (children pn) e))) (children pn)\<rparr>)
                  else if fresh s \<le> q \<and> q < fresh s + n then
                    Some ((textBar cr el (skeletonHeight fs) n (q - fresh s)
                             (yCursorAt (ypos el) (lineHeightValue (lineHeight el) fs) (q - fresh s)))
                          \<lparr>parent := Some p\<rparr>)
                  else nodes s q)"
        by blast
      from c res have e: "err = None" and s': "s' = s\<lparr>nodes := F, fresh := fresh s + n\<rparr>"
        by simp_all
      have n': "nodes s' = F" and f': "fresh s' = fresh s + n" using s' by simp_all
      have a: "\<forall>q. fresh s \<le> q \<and> q < fresh s + n \<longrightarrow>
                      (\<exists>b. nodes s' q = Some b \<and> ntype b = RECTANGLE \<and> parent b = Some p
                           \<and> children b = [])"
        unfolding n' using lt by (auto simp: F)
      have b: "\<forall>q. q \<noteq> e \<and> q \<noteq> p \<and> \<not> (fresh s \<le> q \<and> q < fresh s + n) \<longrightarrow>
                      nodes s' q = nodes s q"
        unfolding n' by (simp add: F)
      have c: "nodes s' e = Some (el\<lparr>parent := None\<rparr>)" unfolding n' by (simp add: F)
      have d: "nodes s' p = Some (pn\<lparr>children := take (nat (indexOf (children pn) e)) (children pn)
                                          @ [fresh s ..< fresh s + n]
                                          @ drop (Suc (nat (indexOf (children pn) e))) (children pn)\<rparr>)"
        unfolding n' using lt by (simp add: F)
      have fs: "\<exists>fs. fst (getFontSizeAndLoadFont h el s) = Inr fs" using g' by simp
      have pos: "0 < height el \<longrightarrow> 0 < n"
        using Some by (auto simp: lineCount_def split: if_splits)
      show ?thesis using e fs f' pos a b c d by blast
    qed
  qed
next
  case False
  from convert_shape_step[OF el(1) False el(2) pn lt, of h cr]
  obtain F where c: "convertElementToSkeleton h e cr s
                = Some (None, s\<lparr>nodes := F, fresh := Suc (fresh s)\<rparr>)"
    and F: "\<And>q. F q =
                 (if q = e then Some (el\<lparr>parent := None\<rparr>)
                  else if q = p then
                    Some (pn\<lparr>children := take (nat (indexOf (children pn) e)) (children pn)
                                          @ [fresh s]
                                          @ drop (Suc (nat (indexOf (children pn) e))) (children pn)\<rparr>)
                  else if q = fresh s then Some ((shapePlaceholder cr el)\<lparr>parent := Some p\<rparr>)
                  else nodes s q)"
    by blast
  from c res have e: "err = None" and s': "s' = s\<lparr>nodes := F, fresh := Suc (fresh s)\<rparr>"
    by simp_all
  have n': "nodes s' = F" and f': "fresh s' = fresh s + 1" using s' by simp_all
  have a: "\<forall>q. fresh s \<le> q \<and> q < fresh s + 1 \<longrightarrow>
                      (\<exists>b. nodes s' q = Some b \<and> ntype b = RECTANGLE \<and> parent b = Some p
                           \<and> children b = [])"
    unfolding n' using lt by (auto simp: F)
  have b: "\<forall>q. q \<noteq> e \<and> q \<noteq> p \<and> \<not> (fresh s \<le> q \<and> q < fresh s + 1) \<longrightarrow>
                      nodes s' q = nodes s q"
    unfolding n' by (auto simp: F)
  have c: "nodes s' e = Some (el\<lparr>parent := None\<rparr>)" unfolding n' by (simp add: F)
  have d: "nodes s' p = Some (pn\<lparr>children := take (nat (indexOf (children pn) e)) (children pn)
                                          @ [fresh s ..< fresh s + 1]
                                          @ drop (Suc (nat (indexOf (children pn) e))) (children pn)\<rparr>)"
    unfolding n' using lt by (simp add: F)
  have pos: "0 < height el \<longrightarrow> 0 < (1::nat)" by simp
  show ?thesis using e False f' pos a b c d by blast
qed

text \<open>The records of the rectangles a successful call has made.\<close>

lemma convert_step_content:
  assumes el: "nodes s e = Some el" "parent el = Some p"
    and pn: "nodes s p = Some pn" "e \<in> set (children pn)"
    and lt: "e < fresh s" "p < fresh s" "e \<noteq> p"
    and res: "convertElementToSkeleton h e cr s = Some (err, s')"
    and n: "fresh s' = fresh s + n"
    and ok: "ntype el = TEXT \<longrightarrow> (\<exists>fs. fst (getFontSizeAndLoadFont h el s) = Inr fs)"
  shows "\<exists>fs. (if ntype el = TEXT then
                 fst (getFontSizeAndLoadFont h el s) = Inr fs
                 \<and> lineCount (height el) (lineHeightValue (lineHeight el) fs) = Some n
               else n = 1)
            \<and> (\<forall>i<n. nodes s' (fresh s + i)
                         = Some ((placeholder cr el fs n i)\<lparr>parent := Some p\<rparr>))"
proof (cases "ntype el = TEXT")
  case True
  with ok obtain fs where fs: "fst (getFontSizeAndLoadFont h el s) = Inr fs" by blast
  obtain s1 where g: "getFontSizeAndLoadFont h el s = (Inr fs, s1)"
    using fs by (cases "getFontSizeAndLoadFont h el s") simp
  show ?thesis
  proof (cases "lineCount (height el) (lineHeightValue (lineHeight el) fs)")
    case None
    then have "convertElementToSkeleton h e cr s = None"
      using el pn True g by (simp add: convertElementToSkeleton_def Let_def)
    with res show ?thesis by simp
  next
    case (Some n')
    from convert_text_step[OF el(1) True el(2) pn lt g Some, of cr]
    obtain F where c: "convertElementToSkeleton h e cr s
                = Some (None, s\<lparr>nodes := F, fresh := fresh s + n'\<rparr>)"
      and F: "\<And>q. F q =
                 (if q = e then Some (el\<lparr>parent := None\<rparr>)
                  else if q = p then
                    Some (pn\<lparr>children := take (nat (indexOf (children pn) e)) (children pn)
                                          @ [fresh s ..< fresh s + n']
                                          @ drop (Suc (nat (indexOf (children pn) e))) (children pn)\<rparr>)
                  else if fresh s \<le> q \<and> q < fresh s + n' then
                    Some ((textBar cr el (skeletonHeight fs) n' (q - fresh s)
                             (yCursorAt (ypos el) (lineHeightValue (lineHeight el) fs) (q - fresh s)))
                          \<lparr>parent := Some p\<rparr>)
                  else nodes s q)"
      by blast
    from c res have s': "s' = s\<lparr>nodes := F, fresh := fresh s + n'\<rparr>" by simp
    with n have nn: "n' = n" by simp
    have "\<forall>i<n. nodes s' (fresh s + i) = Some ((placeholder cr el fs n i)\<lparr>parent := Some p\<rparr>)"
    proof (intro allI impI)
      fix i assume i: "i < n"
      have "nodes s' (fresh s + i) = F (fresh s + i)" using s' by simp
      also have "\<dots> = Some ((textBar cr el (skeletonHeight fs) n i
                             (yCursorAt (ypos el) (lineHeightValue (lineHeight el) fs) i))
                          \<lparr>parent := Some p\<rparr>)"
        using i lt nn by (simp add: F)
      finally show "nodes s' (fresh s + i) = Some ((placeholder cr el fs n i)\<lparr>parent := Some p\<rparr>)"
        using True by (simp add: placeholder_def)
    qed
    with True fs Some nn show ?thesis by auto
  qed
next
  case False
  from convert_shape_step[OF el(1) False el(2) pn lt, of h cr]
  obtain F where c: "convertElementToSkeleton h e cr s
                = Some (None, s\<lparr>nodes := F, fresh := Suc (fresh s)\<rparr>)"
    and F: "\<And>q. F q =
                 (if q = e then Some (el\<lparr>parent := None\<rparr>)
                  else if q = p then
                    Some (pn\<lparr>children := take (nat (indexOf (children pn) e)) (children pn)
                                          @ [fresh s]
                                          @ drop (Suc (nat (indexOf (children pn) e))) (children pn)\<rparr>)
                  else if q = fresh s then Some ((shapePlaceholder cr el)\<lparr>parent := Some p\<rparr>)
                  else nodes s q)"
    by blast
  from c res have s': "s' = s\<lparr>nodes := F, fresh := Suc (fresh s)\<rparr>" by simp
  with n have nn: "n = 1" by simp
  have "nodes s' (fresh s) = Some ((shapePlaceholder cr el)\<lparr>parent := Some p\<rparr>)"
    using s' lt by (simp add: F)
  with False nn show ?thesis by (simp add: placeholder_def)
qed

text \<open>With a line height of zero and a positive height the line count is unbounded:
  the call does not return.\<close>

lemma convert_text_zero_line_height:
  assumes "nodes s e = Some el" "ntype el = TEXT" "parent el = Some p" "nodes s p = Some pn"
    and "getFontSizeAndLoadFont h el s = (Inr fs, s1)"
    and "lineHeightValue (lineHeight el) fs = 0" "0 < height el"
  shows "convertElementToSkeleton h e cr s = None"
  using assms by (simp add: convertElementToSkeleton_def Let_def lineCount_def)

section \<open>Placeholders of single nodes\<close>

text \<open>
  C5. For a node that is not text and sits in its parent's child list, the rewriter
  creates exactly one rectangle (one new reference), with the node's \<open>x\<close>, \<open>y\<close>,
  width and height; its corner radius is the configured one, except for an ellipse,
  where it is \<open>min(width, height) / 2\<close>. The rectangle takes the node's place in the
  parent's list.
\<close>

theorem shape_placeholder_geometry:
  assumes "nodes s e = Some el" "ntype el \<noteq> TEXT" "parent el = Some p"
    and "nodes s p = Some pn" "e \<in> set (children pn)"
    and "e < fresh s" "p < fresh s" "e \<noteq> p"
  shows "\<exists>s' r pn'. convertElementToSkeleton h e cr s = Some (None, s')
           \<and> fresh s' = Suc (fresh s)
           \<and> nodes s' (fresh s) = Some r
           \<and> ntype r = RECTANGLE
           \<and> xpos r = xpos el \<and> ypos r = ypos el
           \<and> width r = width el \<and> height r = height el
           \<and> cornerRadius r = (if ntype el = ELLIPSE then min (width el) (height el) / 2 else cr)
           \<and> parent r = Some p
           \<and> nodes s' p = Some pn'
           \<and> children pn' = take (nat (indexOf (children pn) e)) (children pn) @ [fresh s]
                              @ drop (Suc (nat (indexOf (children pn) e))) (children pn)"
proof -
  from convert_shape_step[OF assms, of h cr]
  obtain F where c: "convertElementToSkeleton h e cr s
                = Some (None, s\<lparr>nodes := F, fresh := Suc (fresh s)\<rparr>)"
    and F: "\<And>q. F q =
                 (if q = e then Some (el\<lparr>parent := None\<rparr>)
                  else if q = p then
                    Some (pn\<lparr>children := take (nat (indexOf (children pn) e)) (children pn)
                                          @ [fresh s]
                                          @ drop (Suc (nat (indexOf (children pn) e))) (children pn)\<rparr>)
                  else if q = fresh s then Some ((shapePlaceholder cr el)\<lparr>parent := Some p\<rparr>)
                  else nodes s q)"
    by blast
  have r: "F (fresh s) = Some ((shapePlaceholder cr el)\<lparr>parent := Some p\<rparr>)"
    using assms(6,7) by (simp add: F)
  have p: "F p = Some (pn\<lparr>children := take (nat (indexOf (children pn) e)) (children pn)
                                          @ [fresh s]
                                          @ drop (Suc (nat (indexOf (children pn) e))) (children pn)\<rparr>)"
    using assms(8) by (simp add: F)
  show ?thesis
    unfolding c using r p by (simp add: shapePlaceholder_def defaultRectangle_def)
qed

theorem shape_placeholder_geometry_witness:
  "\<exists>s' r. convertElementToSkeleton allFonts 2 8 ellipseDoc = Some (None, s')
      \<and> fresh s' = 4 \<and> nodes s' 3 = Some r \<and> ntype r = RECTANGLE
      \<and> xpos r = 10 \<and> ypos r = 10 \<and> width r = 40 \<and> height r = 60 \<and> cornerRadius r = 20"
  using shape_placeholder_geometry[of ellipseDoc 2 "mkNode ELLIPSE ''Avatar'' 10 10 40 60 [] (Some 1)"
      1 "mkNode FRAME ''Card'' 0 0 200 100 [2] None" allFonts 8]
  by (auto simp: ellipseDoc_def mkNode_def)

lemma yCursorAt_Suc: "yCursorAt y lh (Suc i) = jsPlus (yCursorAt y lh i) lh"
  by (induction i arbitrary: y) simp_all

lemma yCursorAt_exact:
  "\<forall>j\<le>i. toDouble (y + of_nat j * lh) = y + of_nat j * lh \<Longrightarrow>
     yCursorAt y lh i = y + of_nat i * lh"
proof (induction i)
  case 0
  then show ?case by simp
next
  case (Suc i)
  then have "yCursorAt y lh i = y + of_nat i * lh" by simp
  then have "yCursorAt y lh (Suc i) = toDouble (y + of_nat i * lh + lh)"
    by (simp add: yCursorAt_Suc jsPlus_def del: yCursorAt.simps)
  also have "y + of_nat i * lh + lh = y + of_nat (Suc i) * lh" by (simp add: algebra_simps)
  also have "toDouble (y + of_nat (Suc i) * lh) = y + of_nat (Suc i) * lh"
    using Suc.prems by blast
  finally show ?case .
qed

text \<open>The count and the height are roundings of doubles: at font size 12 with a line
  height of 130 percent a text 39 high has two lines, the quotient being just below
  2.5, and at font size 45 the bars are 31 high, the product being just below 31.5.\<close>

lemma rounding_of_doubles:
  "lineCount 39 (lineHeightValue (LhPercent 130) 12) = Some 2 \<and> skeletonHeight 45 = 31"
  by code_simp

text \<open>
  C2, as stated, fails for a line height of zero: the font size of the text resolves,
  the quotient \<open>height / lineHeightValue\<close> is \<open>Infinity\<close>, and the call never returns.
\<close>

theorem text_with_zero_line_height_never_returns:
  "nodes flatTextDoc 2 = Some flatText
   \<and> shouldConvertToSkeleton (Some flatText)
   \<and> getFontSizeAndLoadFont allFonts flatText flatTextDoc = (Inr 16, flatTextDoc)
   \<and> lineHeightValue (lineHeight flatText) 16 = 0
   \<and> convertElementToSkeleton allFonts 2 8 flatTextDoc = None"
  by (simp add: flatTextDoc_def flatText_def mkNode_def shouldConvertToSkeleton_def
      convertibleTypes_def getFontSizeAndLoadFont_def inter_def allFonts_def
      convertElementToSkeleton_def lineCount_def)

text \<open>
  C2. For a text node whose font size resolves to \<open>fs\<close> and whose line height
  \<open>lh\<close> is not zero, the rewriter makes \<open>n = max(1, round(height / lh))\<close> bars.
  After the loop the parent holds the bars at the positions \<open>k .. k + n - 1\<close>, \<open>k\<close>
  being the text's index, and still holds the text, which is removed only then. Bar
  \<open>i\<close> lies at \<open>x\<close> and at the value of \<open>yCursor\<close> after \<open>i\<close> additions of \<open>lh\<close> to
  \<open>y\<close>, which is \<open>y + i * lh\<close> when these sums are doubles; it has height
  \<open>max(6, round(fs * 0.7))\<close> and width \<open>width\<close>, the last bar \<open>width * 0.6\<close>. The
  operators are those of the source on doubles.
\<close>

theorem text_bars_geometry:
  assumes el: "nodes s e = Some el" "ntype el = TEXT" "parent el = Some p"
    and pn: "nodes s p = Some pn" "e \<in> set (children pn)"
    and lt: "e < fresh s" "p < fresh s" "e \<noteq> p"
    and font: "getFontSizeAndLoadFont h el s = (Inr fs, s1)"
    and lh: "lh = lineHeightValue (lineHeight el) fs" "lh \<noteq> 0"
    and n: "n = nat (max 1 (round (jsDivide (height el) lh)))"
    and k: "k = nat (indexOf (children pn) e)"
  shows "\<exists>s2 s' pn2 pn' el'.
           barLoop cr el p (indexOf (children pn) e) lh (skeletonHeight fs) n 0 (ypos el) s
             = (None, s2)
           \<and> nodes s2 e = Some el
           \<and> nodes s2 p = Some pn2
           \<and> children pn2 = take k (children pn) @ [fresh s ..< fresh s + n] @ drop k (children pn)
           \<and> convertElementToSkeleton h e cr s = Some (None, s')
           \<and> s' = removeNode e s2
           \<and> fresh s' = fresh s + n
           \<and> (\<forall>i<n. \<exists>b. nodes s' (fresh s + i) = Some b
                  \<and> xpos b = xpos el \<and> ypos b = yCursorAt (ypos el) lh i
                  \<and> ((\<forall>j\<le>i. toDouble (ypos el + of_nat j * lh) = ypos el + of_nat j * lh)
                       \<longrightarrow> ypos b = ypos el + of_nat i * lh)
                  \<and> height b = max 6 (of_int (round (jsTimes fs (toDouble (7 / 10)))))
                  \<and> width b = (if i = n - 1 then jsTimes (width el) (toDouble (6 / 10))
                               else width el)
                  \<and> parent b = Some p)
           \<and> nodes s' p = Some pn'
           \<and> children pn' = take k (children pn) @ [fresh s ..< fresh s + n]
                              @ drop (Suc k) (children pn)
           \<and> (\<forall>i<n. children pn' ! (k + i) = fresh s + i)
           \<and> nodes s' e = Some el' \<and> parent el' = None"
proof -
  let ?cs = "children pn"
  let ?idx = "indexOf ?cs e"
  let ?r = "fresh s"
  have s1: "s1 = s" using font by (rule getFont_ok)
  have lc: "lineCount (height el) (lineHeightValue (lineHeight el) fs) = Some n"
    using lh n by (simp add: lineCount_def)
  from indexOf_mem[OF pn(2)] have idx: "0 \<le> ?idx" "k < length ?cs" "?cs ! k = e"
    "e \<notin> set (take k ?cs)" unfolding k by auto
  have "nat ?idx + 0 \<le> length ?cs" using idx k by simp
  from barLoop_effect[OF pn(1) lt(2) idx(1) this, of cr el lh "skeletonHeight fs" n "ypos el"]
  obtain F0 where bl: "barLoop cr el p ?idx lh (skeletonHeight fs) n 0 (ypos el) s
                         = (None, s\<lparr>nodes := F0, fresh := ?r + n\<rparr>)"
    and F0: "\<And>q. F0 q =
                 (if q = p then
                    Some (pn\<lparr>children := take k ?cs @ [?r ..< ?r + n] @ drop k ?cs\<rparr>)
                  else if ?r \<le> q \<and> q < ?r + n then
                    Some ((textBar cr el (skeletonHeight fs) n (q - ?r)
                             (yCursorAt (ypos el) lh (q - ?r)))\<lparr>parent := Some p\<rparr>)
                  else nodes s q)"
    unfolding k by auto
  let ?s2 = "s\<lparr>nodes := F0, fresh := ?r + n\<rparr>"
  have F0e: "nodes ?s2 e = Some el" using F0[of e] lt el by simp
  have F0p: "nodes ?s2 p = Some (pn\<lparr>children := take k ?cs @ [?r ..< ?r + n] @ drop k ?cs\<rparr>)"
    using F0[of p] by simp
  have conv: "convertElementToSkeleton h e cr s = Some (None, removeNode e ?s2)"
    using el pn font s1 lc bl lh by (simp add: convertElementToSkeleton_def Let_def)
  from convert_text_step[OF el(1,2,3) pn lt font lc, of cr]
  obtain F where c: "convertElementToSkeleton h e cr s
                = Some (None, s\<lparr>nodes := F, fresh := ?r + n\<rparr>)"
    and F: "\<And>q. F q =
                 (if q = e then Some (el\<lparr>parent := None\<rparr>)
                  else if q = p then
                    Some (pn\<lparr>children := take k ?cs @ [?r ..< ?r + n] @ drop (Suc k) ?cs\<rparr>)
                  else if ?r \<le> q \<and> q < ?r + n then
                    Some ((textBar cr el (skeletonHeight fs) n (q - ?r)
                             (yCursorAt (ypos el) lh (q - ?r)))\<lparr>parent := Some p\<rparr>)
                  else nodes s q)"
    unfolding k lh by blast
  let ?s' = "s\<lparr>nodes := F, fresh := ?r + n\<rparr>"
  have rem: "?s' = removeNode e ?s2" using c conv by simp
  have bars: "\<forall>i<n. \<exists>b. nodes ?s' (?r + i) = Some b
                  \<and> xpos b = xpos el \<and> ypos b = yCursorAt (ypos el) lh i
                  \<and> ((\<forall>j\<le>i. toDouble (ypos el + of_nat j * lh) = ypos el + of_nat j * lh)
                       \<longrightarrow> ypos b = ypos el + of_nat i * lh)
                  \<and> height b = max 6 (of_int (round (jsTimes fs (toDouble (7 / 10)))))
                  \<and> width b = (if i = n - 1 then jsTimes (width el) (toDouble (6 / 10))
                               else width el)
                  \<and> parent b = Some p"
  proof (intro allI impI)
    fix i assume i: "i < n"
    then have "int i = int n - 1 \<longleftrightarrow> i = n - 1" by auto
    then show "\<exists>b. nodes ?s' (?r + i) = Some b
                  \<and> xpos b = xpos el \<and> ypos b = yCursorAt (ypos el) lh i
                  \<and> ((\<forall>j\<le>i. toDouble (ypos el + of_nat j * lh) = ypos el + of_nat j * lh)
                       \<longrightarrow> ypos b = ypos el + of_nat i * lh)
                  \<and> height b = max 6 (of_int (round (jsTimes fs (toDouble (7 / 10)))))
                  \<and> width b = (if i = n - 1 then jsTimes (width el) (toDouble (6 / 10))
                               else width el)
                  \<and> parent b = Some p"
      using i lt yCursorAt_exact[of i "ypos el" lh]
      by (simp add: F textBar_def skeletonHeight_def)
  qed
  have pos: "\<forall>i<n. (take k ?cs @ [?r ..< ?r + n] @ drop (Suc k) ?cs) ! (k + i) = ?r + i"
    using idx(2) by (simp add: nth_append)
  have Fp: "nodes ?s' p = Some (pn\<lparr>children := take k ?cs @ [?r ..< ?r + n] @ drop (Suc k) ?cs\<rparr>)"
    using lt by (simp add: F)
  have Fe: "nodes ?s' e = Some (el\<lparr>parent := None\<rparr>)" by (simp add: F)
  show ?thesis
    apply (rule exI[of _ ?s2], rule exI[of _ ?s'])
    apply (rule exI[of _ "pn\<lparr>children := take k ?cs @ [?r ..< ?r + n] @ drop k ?cs\<rparr>"])
    apply (rule exI[of _ "pn\<lparr>children := take k ?cs @ [?r ..< ?r + n] @ drop (Suc k) ?cs\<rparr>"])
    apply (rule exI[of _ "el\<lparr>parent := None\<rparr>"])
    apply (intro conjI)
    subgoal by (rule bl)
    subgoal by (rule F0e)
    subgoal by (rule F0p)
    subgoal by simp
    subgoal by (rule c)
    subgoal by (rule rem)
    subgoal by simp
    subgoal by (rule bars)
    subgoal by (rule Fp)
    subgoal by simp
    subgoal using pos by simp
    subgoal by (rule Fe)
    subgoal by simp
    done
qed

theorem text_bars_geometry_witness:
  "\<exists>s' b0 b1 b2 pn'. convertElementToSkeleton allFonts 2 8 paragraphDoc = Some (None, s')
      \<and> fresh s' = 6
      \<and> nodes s' 3 = Some b0 \<and> nodes s' 4 = Some b1 \<and> nodes s' 5 = Some b2
      \<and> width b0 = 100 \<and> width b1 = 100 \<and> width b2 = 60
      \<and> height b0 = 11 \<and> height b1 = 11 \<and> height b2 = 11
      \<and> ypos b0 = 10 \<and> ypos b1 = 30 \<and> ypos b2 = 50
      \<and> nodes s' 1 = Some pn' \<and> children pn' = [3, 4, 5]"
proof -
  let ?card = "mkNode FRAME ''Card'' 0 0 200 100 [2] None"
  have h1: "nodes paragraphDoc 2 = Some bodyText" by (simp add: paragraphDoc_def)
  have h2: "ntype bodyText = TEXT" by (simp add: bodyText_def mkNode_def)
  have h3: "parent bodyText = Some 1" by (simp add: bodyText_def mkNode_def)
  have h4: "nodes paragraphDoc 1 = Some ?card" by (simp add: paragraphDoc_def)
  have h5: "2 \<in> set (children ?card)" by (simp add: mkNode_def)
  have h6: "2 < fresh paragraphDoc" "1 < fresh paragraphDoc" "(2::nat) \<noteq> 1"
    by (simp_all add: paragraphDoc_def)
  have f: "getFontSizeAndLoadFont allFonts bodyText paragraphDoc = (Inr 16, paragraphDoc)"
    by (simp add: getFontSizeAndLoadFont_def bodyText_def mkNode_def inter_def allFonts_def)
  have lh: "20 = lineHeightValue (lineHeight bodyText) 16" "(20::rat) \<noteq> 0"
    by (simp_all add: bodyText_def mkNode_def)
  have q: "round (jsDivide 60 20) = 3" by code_simp
  have n: "3 = nat (max 1 (round (jsDivide (height bodyText) 20)))"
    by (simp add: bodyText_def mkNode_def q)
  have k: "0 = nat (indexOf (children ?card) 2)" by (simp add: mkNode_def)
  have r: "max 6 (of_int (round (jsTimes 16 (toDouble (7 / 10))))) = (11 :: rat)" by code_simp
  have w: "jsTimes 100 (toDouble (6 / 10)) = 60" by code_simp
  have y: "yCursorAt 10 20 0 = 10" "yCursorAt 10 20 1 = 30" "yCursorAt 10 20 2 = 50"
    by code_simp+
  have fr: "fresh paragraphDoc = 3" by (simp add: paragraphDoc_def)
  have g: "xpos bodyText = 10" "ypos bodyText = 10" "width bodyText = 100"
    by (simp_all add: bodyText_def mkNode_def)
  from text_bars_geometry[OF h1 h2 h3 h4 h5 h6 f lh n k, of 8, unfolded fr r g w]
  obtain s' pn' where c: "convertElementToSkeleton allFonts 2 8 paragraphDoc = Some (None, s')"
    and fs: "fresh s' = 3 + 3"
    and bars: "\<forall>i<3. \<exists>b. nodes s' (3 + i) = Some b
                  \<and> xpos b = 10 \<and> ypos b = yCursorAt 10 20 i
                  \<and> ((\<forall>j\<le>i. toDouble (10 + of_nat j * 20) = 10 + of_nat j * 20)
                       \<longrightarrow> ypos b = 10 + of_nat i * 20)
                  \<and> height b = 11
                  \<and> width b = (if i = 3 - 1 then 60 else 100)
                  \<and> parent b = Some 1"
    and p: "nodes s' 1 = Some pn'"
      "children pn' = take 0 (children ?card) @ [3 ..< 3 + 3] @ drop (Suc 0) (children ?card)"
    by blast
  have u: "[3 ..< 3 + 3] = [3, 4, 5 :: nat]" by code_simp
  have p': "children pn' = [3, 4, 5]" unfolding p(2) u by (simp add: mkNode_def)
  from bars[rule_format, of 0] bars[rule_format, of 1] bars[rule_format, of 2]
  obtain b0 b1 b2 where b: "nodes s' 3 = Some b0" "nodes s' 4 = Some b1" "nodes s' 5 = Some b2"
      "width b0 = 100" "width b1 = 100" "width b2 = 60"
      "height b0 = 11" "height b1 = 11" "height b2 = 11"
      "ypos b0 = yCursorAt 10 20 0" "ypos b1 = yCursorAt 10 20 1" "ypos b2 = yCursorAt 10 20 2"
    by auto
  from b(10-12) have "ypos b0 = 10" "ypos b1 = 30" "ypos b2 = 50"
    unfolding y by simp_all
  with b(1-9) c fs p(1) p' show ?thesis by simp
qed

section \<open>What a run does to the selection and the notifications\<close>

lemma docOnly_refl: "docOnly s s"
  unfolding docOnly_def by simp

lemma docOnly_trans: "docOnly s t \<Longrightarrow> docOnly t u \<Longrightarrow> docOnly s u"
  unfolding docOnly_def by auto

lemma docOnly_setNode: "docOnly s (setNode i f s)"
  unfolding docOnly_def by simp

lemma docOnly_allocate: "allocate nd s = (r, s1) \<Longrightarrow> docOnly s s1"
  unfolding docOnly_def allocate_def by auto

lemma docOnly_insertChild: "insertChild p idx c s = (err, s1) \<Longrightarrow> docOnly s s1"
  unfolding insertChild_def
  by (auto split: option.splits if_splits
           intro: docOnly_refl docOnly_trans[OF docOnly_setNode docOnly_setNode])

lemma docOnly_removeNode: "docOnly s (removeNode e s)"
  unfolding removeNode_def
  by (auto split: option.splits
           intro: docOnly_refl docOnly_trans[OF docOnly_setNode docOnly_setNode])

lemma docOnly_barLoop:
  "barLoop cr el p idx lh sh n i yc s = (err, s1) \<Longrightarrow> docOnly s s1"
proof (induction cr el p idx lh sh n i yc s rule: barLoop.induct)
  case (1 cr el p idx lh sh n i yc s)
  show ?case
  proof (cases "i < n")
    case False
    with "1.prems" show ?thesis by (simp add: barLoop.simps docOnly_refl)
  next
    case True
    obtain r sa where a: "allocate (textBar cr el sh n i yc) s = (r, sa)"
      by (cases "allocate (textBar cr el sh n i yc) s")
    obtain e sb where b: "insertChild p (idx + int i) r sa = (e, sb)"
      by (cases "insertChild p (idx + int i) r sa")
    have d: "docOnly s sb"
      using docOnly_trans[OF docOnly_allocate[OF a] docOnly_insertChild[OF b]] .
    show ?thesis
    proof (cases e)
      case None
      with "1.prems" True a b
      have "barLoop cr el p idx lh sh n (Suc i) (jsPlus yc lh) sb = (err, s1)"
        by (subst (asm) barLoop.simps) simp
      from "1.IH"[OF True a[symmetric] b[symmetric] None this] d
      show ?thesis by (rule docOnly_trans[rotated])
    next
      case (Some x)
      with "1.prems" True a b have "s1 = sb"
        by (subst (asm) barLoop.simps) simp
      with d show ?thesis by simp
    qed
  qed
qed

lemma docOnly_detach:
  "detachAllInstances h k n s = Some (err, s1) \<Longrightarrow> docOnly s s1"
  "detachChildren h k cs s = Some (err, s1) \<Longrightarrow> docOnly s s1"
proof (induction h k n s and h k cs s arbitrary: err s1 and err s1
       rule: detachAllInstances_detachChildren.induct)
  case (1 h n s)
  then show ?case by simp
next
  case (2 h k n s)
  then show ?case
    by (auto split: option.splits if_splits
             intro: docOnly_refl docOnly_trans[OF docOnly_setNode])
next
  case (3 h k s)
  then show ?case by (simp add: docOnly_refl)
next
  case (4 h k c cs s)
  then show ?case
    by (auto split: option.splits prod.splits intro: docOnly_trans)
qed

lemma docOnly_clone:
  "cloneNode k n par s = Some (c, s1) \<Longrightarrow> docOnly s s1"
  "cloneChildren k cs p s = Some (cs', s1) \<Longrightarrow> docOnly s s1"
proof (induction k n par s and k cs p s arbitrary: c s1 and cs' s1
       rule: cloneNode_cloneChildren.induct)
  case (1 n par s)
  then show ?case by simp
next
  case (2 k n par s)
  from "2.prems" obtain nd where nd: "nodes s n = Some nd"
    by (auto split: option.splits)
  obtain r sa where a: "allocate (nd\<lparr>parent := par, children := []\<rparr>) s = (r, sa)"
    by (cases "allocate (nd\<lparr>parent := par, children := []\<rparr>) s")
  from "2.prems" nd a obtain cs sb where
    b: "cloneChildren k (children nd) r sa = Some (cs, sb)"
    and s1: "s1 = setNode r (\<lambda>d. d\<lparr>children := cs\<rparr>) sb"
    by (auto split: option.splits)
  from "2.IH"[OF nd a[symmetric] b] have "docOnly sa sb" .
  with docOnly_allocate[OF a] have "docOnly s sb" by (rule docOnly_trans)
  then show ?case unfolding s1 by (rule docOnly_trans[OF _ docOnly_setNode])
next
  case (3 k par s)
  then show ?case by (simp add: docOnly_refl)
next
  case (4 k c cs par s)
  then show ?case
    by (auto split: option.splits prod.splits intro: docOnly_trans)
qed

lemma logStep_refl: "logStep s s"
  unfolding logStep_def by simp

lemma logStep_trans:
  assumes "logStep s t" "logStep t u"
  shows "logStep s u"
proof -
  from assms(1) obtain w1 where w1: "notifications t = notifications s @ w1"
    "\<And>f. count_list w1 (FontWarning f)
            = (if f \<in> notifiedFontFamilies t - notifiedFontFamilies s then 1 else 0)"
    and m1: "notifiedFontFamilies s \<subseteq> notifiedFontFamilies t" "selection t = selection s"
    unfolding logStep_def by auto
  from assms(2) obtain w2 where w2: "notifications u = notifications t @ w2"
    "\<And>f. count_list w2 (FontWarning f)
            = (if f \<in> notifiedFontFamilies u - notifiedFontFamilies t then 1 else 0)"
    and m2: "notifiedFontFamilies t \<subseteq> notifiedFontFamilies u" "selection u = selection t"
    unfolding logStep_def by auto
  have "notifications u = notifications s @ (w1 @ w2)" using w1(1) w2(1) by simp
  moreover have "\<forall>f. count_list (w1 @ w2) (FontWarning f)
            = (if f \<in> notifiedFontFamilies u - notifiedFontFamilies s then 1 else 0)"
    using w1(2) w2(2) m1(1) m2(1) by auto
  moreover have "selection u = selection s" using m1 m2 by simp
  moreover have "notifiedFontFamilies s \<subseteq> notifiedFontFamilies u" using m1 m2 by blast
  ultimately show ?thesis unfolding logStep_def by blast
qed

lemma docOnly_logStep: "docOnly s s' \<Longrightarrow> logStep s s'"
  unfolding docOnly_def logStep_def by auto

lemma logStep_notify: "(\<And>f. m \<noteq> FontWarning f) \<Longrightarrow> logStep s (notify m s)"
  unfolding logStep_def notify_def by auto

lemma logStep_getFont:
  "getFontSizeAndLoadFont h el s = (r, s1) \<Longrightarrow>
     logStep s s1 \<and> nodes s1 = nodes s \<and> fresh s1 = fresh s"
  unfolding getFontSizeAndLoadFont_def logStep_def notify_def
  by (auto simp: Let_def split: font_name.splits if_splits)

lemma logStep_convertElement:
  "convertElementToSkeleton h e cr s = Some (err, s') \<Longrightarrow> logStep s s'"
proof -
  assume c: "convertElementToSkeleton h e cr s = Some (err, s')"
  show ?thesis
  proof (cases "nodes s e")
    case None
    with c show ?thesis by (simp add: convertElementToSkeleton_def logStep_refl)
  next
    case (Some el)
    note el = this
    show ?thesis
    proof (cases "parent el")
      case None
      with c el show ?thesis by (simp add: convertElementToSkeleton_def logStep_refl)
    next
      case (Some p)
      note p = this
      show ?thesis
      proof (cases "nodes s p")
        case None
        with c el p show ?thesis by (simp add: convertElementToSkeleton_def logStep_refl)
      next
        case (Some pn)
        note pn = this
        show ?thesis
        proof (cases "ntype el = TEXT")
          case True
          obtain r s1 where g: "getFontSizeAndLoadFont h el s = (r, s1)"
            by (cases "getFontSizeAndLoadFont h el s")
          from logStep_getFont[OF g] have l1: "logStep s s1" by simp
          show ?thesis
          proof (cases r)
            case (Inl x)
            with c el p pn True g have "s' = s1"
              by (simp add: convertElementToSkeleton_def Let_def)
            with l1 show ?thesis by simp
          next
            case (Inr fs)
            with c el p pn True g obtain n where
              n: "lineCount (height el) (lineHeightValue (lineHeight el) fs) = Some n"
              by (auto simp: convertElementToSkeleton_def Let_def split: option.splits)
            obtain e2 s2 where b: "barLoop cr el p (indexOf (children pn) e)
                (lineHeightValue (lineHeight el) fs) (skeletonHeight fs) n 0 (ypos el) s1 = (e2, s2)"
              by (cases "barLoop cr el p (indexOf (children pn) e)
                (lineHeightValue (lineHeight el) fs) (skeletonHeight fs) n 0 (ypos el) s1")
            from docOnly_barLoop[OF b] have d2: "docOnly s1 s2" .
            from c el p pn True g Inr n b have "s' = s2 \<or> s' = removeNode e s2"
              by (auto simp: convertElementToSkeleton_def Let_def split: option.splits)
            then have "docOnly s1 s'"
              using d2 docOnly_trans[OF d2 docOnly_removeNode] by auto
            then show ?thesis using l1 docOnly_logStep logStep_trans by blast
          qed
        next
          case False
          obtain r sa where a: "allocate (shapePlaceholder cr el) s = (r, sa)"
            by (cases "allocate (shapePlaceholder cr el) s")
          obtain e2 s2 where b: "insertChild p (indexOf (children pn) e) r sa = (e2, s2)"
            by (cases "insertChild p (indexOf (children pn) e) r sa")
          have d2: "docOnly s s2"
            using docOnly_trans[OF docOnly_allocate[OF a] docOnly_insertChild[OF b]] .
          from c el p pn False a b have "s' = s2 \<or> s' = removeNode e s2"
            by (auto simp: convertElementToSkeleton_def Let_def split: option.splits)
          then have "docOnly s s'"
            using d2 docOnly_trans[OF d2 docOnly_removeNode] by auto
          then show ?thesis by (rule docOnly_logStep)
        qed
      qed
    qed
  qed
qed

lemma logStep_convertEach:
  "convertEach h cr wl s = Some s' \<Longrightarrow> logStep s s'"
proof (induction wl arbitrary: s)
  case Nil
  then show ?case by (simp add: logStep_refl)
next
  case (Cons e es)
  then obtain err s1 where c: "convertElementToSkeleton h e cr s = Some (err, s1)"
    and r: "convertEach h cr es s1 = Some s'"
    by (auto split: option.splits)
  from logStep_convertElement[OF c] Cons.IH[OF r] show ?case by (rule logStep_trans)
qed

lemma logStep_convertToSkeleton:
  "convertToSkeleton h fuel rt cr s = Some s' \<Longrightarrow> logStep s s'"
  by (auto simp: convertToSkeleton_def split: option.splits intro: logStep_convertEach)

lemma logStep_convertFrameInPlace:
  "convertFrameInPlace h fuel fr cr s = Some (err, s') \<Longrightarrow> logStep s s'"
  unfolding convertFrameInPlace_def
  by (auto split: option.splits prod.splits
           intro: docOnly_logStep[OF docOnly_detach(1)]
                  logStep_trans[OF docOnly_logStep[OF docOnly_detach(1)] logStep_convertToSkeleton])

lemma logStep_convertTopLevelFrame:
  assumes "convertTopLevelFrame h fuel frame cr s = Some (r, s')"
  shows "logStep s s'"
proof (cases "nodes s frame")
  case None
  with assms show ?thesis by (simp add: convertTopLevelFrame_def logStep_refl)
next
  case (Some fr)
  with assms obtain sk s1 where cl: "cloneNode fuel frame None s = Some (sk, s1)"
    by (auto simp: convertTopLevelFrame_def split: option.splits)
  let ?s4 = "setNode sk (\<lambda>d. d\<lparr>ypos := ypos fr\<rparr>)
               (setNode sk (\<lambda>d. d\<lparr>xpos := jsPlus (jsPlus (xpos fr) (width fr)) 50\<rparr>)
                  (setNode sk (\<lambda>d. d\<lparr>name := name fr @ '' (Skeleton)''\<rparr>) s1))"
  have d4: "docOnly s ?s4"
    using docOnly_clone(1)[OF cl]
    by (auto simp: docOnly_def)
  from assms Some cl obtain e5 s5 where dt: "detachAllInstances h fuel sk ?s4 = Some (e5, s5)"
    by (auto simp: convertTopLevelFrame_def Let_def split: option.splits)
  have d5: "docOnly s s5" using docOnly_trans[OF d4 docOnly_detach(1)[OF dt]] .
  show ?thesis
  proof (cases e5)
    case (Some x)
    with assms \<open>nodes s frame = Some fr\<close> cl dt have "s' = s5"
      by (simp add: convertTopLevelFrame_def Let_def)
    with d5 show ?thesis by (simp add: docOnly_logStep)
  next
    case None
    with assms \<open>nodes s frame = Some fr\<close> cl dt
    have "convertToSkeleton h fuel sk cr s5 = Some s'"
      by (auto simp: convertTopLevelFrame_def Let_def split: option.splits)
    from logStep_trans[OF docOnly_logStep[OF d5] logStep_convertToSkeleton[OF this]]
    show ?thesis .
  qed
qed

lemma logStep_processSelection:
  "processSelection h fuel cr sel pf he s = Some (r, s') \<Longrightarrow> logStep s s'"
proof (induction sel arbitrary: pf he s)
  case Nil
  then show ?case by (simp add: logStep_refl)
next
  case (Cons x rest)
  show ?case
  proof (cases "nodes s x")
    case None
    with Cons.prems have "processSelection h fuel cr rest pf True s = Some (r, s')" by simp
    then show ?thesis by (rule Cons.IH)
  next
    case (Some nd)
    note nd = this
    consider (bad) "ntype nd \<noteq> FRAME \<and> ntype nd \<noteq> COMPONENT \<and> ntype nd \<noteq> INSTANCE"
      | (skip) "\<not> (ntype nd \<noteq> FRAME \<and> ntype nd \<noteq> COMPONENT \<and> ntype nd \<noteq> INSTANCE)"
          "locked nd \<or> \<not> visible nd \<or> width nd < 4 \<or> height nd < 4"
      | (nested) "\<not> (ntype nd \<noteq> FRAME \<and> ntype nd \<noteq> COMPONENT \<and> ntype nd \<noteq> INSTANCE)"
          "\<not> (locked nd \<or> \<not> visible nd \<or> width nd < 4 \<or> height nd < 4)" "isNestedFrame s nd"
      | (top) "\<not> (ntype nd \<noteq> FRAME \<and> ntype nd \<noteq> COMPONENT \<and> ntype nd \<noteq> INSTANCE)"
          "\<not> (locked nd \<or> \<not> visible nd \<or> width nd < 4 \<or> height nd < 4)" "\<not> isNestedFrame s nd"
      by blast
    then show ?thesis
    proof cases
      case bad
      with Cons.prems nd have "processSelection h fuel cr rest pf True s = Some (r, s')" by simp
      then show ?thesis by (rule Cons.IH)
    next
      case skip
      with Cons.prems nd have "processSelection h fuel cr rest pf he s = Some (r, s')" by simp
      then show ?thesis by (rule Cons.IH)
    next
      case nested
      with Cons.prems nd obtain e1 s1 where
        c: "convertFrameInPlace h fuel x cr s = Some (e1, s1)"
        by (auto split: option.splits)
      note l1 = logStep_convertFrameInPlace[OF c]
      show ?thesis
      proof (cases e1)
        case (Some er)
        with Cons.prems nd nested c have "s' = s1" by simp
        with l1 show ?thesis by simp
      next
        case None
        with Cons.prems nd nested c
        have "processSelection h fuel cr rest (pf @ [x]) he s1 = Some (r, s')" by simp
        from logStep_trans[OF l1 Cons.IH[OF this]] show ?thesis .
      qed
    next
      case top
      with Cons.prems nd obtain r1 s1 where
        c: "convertTopLevelFrame h fuel x cr s = Some (r1, s1)"
        by (auto split: option.splits)
      note l1 = logStep_convertTopLevelFrame[OF c]
      show ?thesis
      proof (cases r1)
        case (Inl er)
        with Cons.prems nd top c have "s' = s1" by simp
        with l1 show ?thesis by simp
      next
        case (Inr sk)
        with Cons.prems nd top c
        have "processSelection h fuel cr rest (pf @ [sk]) he s1 = Some (r, s')" by simp
        from logStep_trans[OF l1 Cons.IH[OF this]] show ?thesis .
      qed
    qed
  qed
qed

section \<open>The worklist rewrites the document in place\<close>

lemma wf_lt: "wellFormed s \<Longrightarrow> nodes s q = Some nd \<Longrightarrow> q < fresh s"
  unfolding wellFormed_def by (metis not_le option.distinct(1))

lemma wf_children:
  "wellFormed s \<Longrightarrow> nodes s q = Some nd \<Longrightarrow>
     distinct (children nd) \<and> q \<notin> set (children nd)"
  unfolding wellFormed_def by blast

lemma wf_child:
  "wellFormed s \<Longrightarrow> nodes s q = Some nd \<Longrightarrow> c \<in> set (children nd) \<Longrightarrow>
     \<exists>cn. nodes s c = Some cn \<and> parent cn = Some q"
  unfolding wellFormed_def by blast

lemma wf_parent:
  "wellFormed s \<Longrightarrow> nodes s q = Some nd \<Longrightarrow> parent nd = Some p \<Longrightarrow>
     \<exists>pn. nodes s p = Some pn \<and> q \<in> set (children pn)"
  unfolding wellFormed_def by blast

lemma indexOf_append: "a \<notin> set xs \<Longrightarrow> indexOf (xs @ a # ys) a = int (length xs)"
  by (induction xs) (auto simp: Let_def)

lemma getFont_fst_cong:
  "fontName a = fontName b \<Longrightarrow> fontSize a = fontSize b \<Longrightarrow> charRuns a = charRuns b \<Longrightarrow>
     fst (getFontSizeAndLoadFont h a s) = fst (getFontSizeAndLoadFont h b t)"
  by (simp add: getFontSizeAndLoadFont_def Let_def split: font_name.splits)

lemma rewritten_refl: "rewritten s (\<lambda>q. [q]) s"
  by (simp add: rewritten_def)

text \<open>The list that replaces the children when one child's image changes.\<close>

lemma concat_map_replace:
  assumes d: "distinct cs" and e: "e \<in> set cs" and Re: "R e = [e]"
    and other: "\<And>c. c \<in> set cs \<Longrightarrow> c \<noteq> e \<Longrightarrow> e \<notin> set (R c)"
  shows "take (nat (indexOf (concat (map R cs)) e)) (concat (map R cs)) @ news
           @ drop (Suc (nat (indexOf (concat (map R cs)) e))) (concat (map R cs))
         = concat (map (R(e := news)) cs)"
proof -
  from e obtain a b where cs: "cs = a @ e # b" by (meson split_list)
  with d have ea: "e \<notin> set a" and eb: "e \<notin> set b" by auto
  let ?A = "concat (map R a)" and ?B = "concat (map R b)"
  have eA: "e \<notin> set ?A" using other ea cs by auto
  have full: "concat (map R cs) = ?A @ e # ?B" using cs Re by simp
  have idx: "indexOf (concat (map R cs)) e = int (length ?A)"
    unfolding full by (rule indexOf_append[OF eA])
  have ma: "map (R(e := news)) a = map R a" using ea by (intro map_cong) auto
  have mb: "map (R(e := news)) b = map R b" using eb by (intro map_cong) auto
  have "concat (map (R(e := news)) cs) = ?A @ news @ ?B"
    unfolding cs by (simp add: ma mb)
  moreover have "take (nat (indexOf (concat (map R cs)) e)) (concat (map R cs)) = ?A"
    by (simp only: idx) (simp add: full)
  moreover have "drop (Suc (nat (indexOf (concat (map R cs)) e))) (concat (map R cs)) = ?B"
    by (simp only: idx) (simp add: full)
  ultimately show ?thesis by simp
qed

lemma concat_map_same:
  "e \<notin> set cs \<Longrightarrow> concat (map (R(e := news)) cs) = concat (map R cs)"
proof -
  assume "e \<notin> set cs"
  then have "map (R(e := news)) cs = map R cs" by (intro map_cong) auto
  then show ?thesis by (simp only:)
qed

lemma rewritten_nodes:
  "rewritten s0 R s \<Longrightarrow> nodes s0 q = Some nd \<Longrightarrow>
     nodes s q = Some (nd\<lparr>children := concat (map R (children nd)),
                           parent := (if R q = [q] then parent nd else None)\<rparr>)"
  unfolding rewritten_def by blast

lemma rewritten_block:
  "rewritten s0 R s \<Longrightarrow> R q \<noteq> [q] \<Longrightarrow>
     \<exists>nd p. nodes s0 q = Some nd \<and> parent nd = Some p \<and>
            (\<forall>r \<in> set (R q). fresh s0 \<le> r \<and> r < fresh s \<and>
               (\<exists>b. nodes s r = Some b \<and> ntype b = RECTANGLE \<and> parent b = Some p
                    \<and> children b = []))"
  unfolding rewritten_def by blast

lemma rewritten_fresh: "rewritten s0 R s \<Longrightarrow> fresh s0 \<le> fresh s"
  unfolding rewritten_def by blast

lemma rewritten_notin:
  assumes inv: "rewritten s0 R s" and e: "e < fresh s0" and c: "c \<noteq> e"
  shows "e \<notin> set (R c)"
proof (cases "R c = [c]")
  case True
  then show ?thesis using c by simp
next
  case False
  from rewritten_block[OF inv False] e show ?thesis by fastforce
qed

lemma rewritten_same_nodes:
  "rewritten s0 R s \<Longrightarrow> nodes s1 = nodes s \<Longrightarrow> fresh s1 = fresh s \<Longrightarrow> rewritten s0 R s1"
  unfolding rewritten_def by simp

lemma placed_refl: "placed h cr s (\<lambda>q. [q]) s"
  by (simp add: placed_def)

lemma placed_same_nodes:
  "placed h cr s0 R s \<Longrightarrow> nodes s1 = nodes s \<Longrightarrow> fresh s1 = fresh s \<Longrightarrow> placed h cr s0 R s1"
  unfolding placed_def standsFor_def by simp

lemma standsFor_keep:
  assumes st: "standsFor h cr s0 s q rs" and fr: "fresh s \<le> fresh s1"
    and same: "\<And>r. fresh s0 \<le> r \<Longrightarrow> r < fresh s \<Longrightarrow> nodes s1 r = nodes s r"
  shows "standsFor h cr s0 s1 q rs"
proof -
  from st obtain nd p fs n r0 where a: "nodes s0 q = Some nd" "parent nd = Some p"
      "rs = [r0 ..< r0 + n]" "fresh s0 \<le> r0" "r0 + n \<le> fresh s"
      "if ntype nd = TEXT then
               fst (getFontSizeAndLoadFont h nd s0) = Inr fs
               \<and> lineCount (height nd) (lineHeightValue (lineHeight nd) fs) = Some n
             else n = 1"
      "\<forall>i<n. nodes s (r0 + i) = Some ((placeholder cr nd fs n i)\<lparr>parent := Some p\<rparr>)"
    unfolding standsFor_def by blast
  have b: "\<forall>i<n. nodes s1 (r0 + i) = Some ((placeholder cr nd fs n i)\<lparr>parent := Some p\<rparr>)"
  proof (intro allI impI)
    fix i assume i: "i < n"
    then have "nodes s1 (r0 + i) = nodes s (r0 + i)" using a(4,5) by (intro same) simp_all
    with a(7) i show "nodes s1 (r0 + i) = Some ((placeholder cr nd fs n i)\<lparr>parent := Some p\<rparr>)"
      by simp
  qed
  have c: "r0 + n \<le> fresh s1" using a(5) fr by simp
  show ?thesis
    unfolding standsFor_def
    apply (rule exI[of _ nd], rule exI[of _ p], rule exI[of _ fs], rule exI[of _ n],
           rule exI[of _ r0])
    using a(1-4,6) b c by (intro conjI)
qed

lemma convertElement_rewritten:
  assumes wf: "wellFormed s0" and inv: "rewritten s0 R s"
    and e0: "nodes s0 e = Some el0"
    and res: "convertElementToSkeleton h e cr s = Some (err, s1)"
  shows "\<exists>R'. rewritten s0 R' s1 \<and> (\<forall>q. q \<noteq> e \<longrightarrow> R' q = R q)
           \<and> (R e \<noteq> [e] \<longrightarrow> R' e = R e)
           \<and> (R e = [e] \<and> parent el0 \<noteq> None \<and> 0 < height el0
                \<and> (ntype el0 = TEXT \<longrightarrow> (\<exists>fs. fst (getFontSizeAndLoadFont h el0 s0) = Inr fs))
               \<longrightarrow> R' e \<noteq> [e] \<and> R' e \<noteq> [])
           \<and> (R e = [e] \<and> parent el0 \<noteq> None \<and> ntype el0 = TEXT
                \<and> (\<exists>x. fst (getFontSizeAndLoadFont h el0 s0) = Inl x)
               \<longrightarrow> R' e = [e] \<and> familyName (fontName el0) \<in> notifiedFontFamilies s1)
           \<and> (placed h cr s0 R s \<longrightarrow> placed h cr s0 R' s1)"
proof -
  let ?el = "el0\<lparr>children := concat (map R (children el0)),
                  parent := (if R e = [e] then parent el0 else None)\<rparr>"
  have cur: "nodes s e = Some ?el" by (rule rewritten_nodes[OF inv e0])
  have e_lt0: "e < fresh s0" by (rule wf_lt[OF wf e0])
  have fr: "fresh s0 \<le> fresh s" by (rule rewritten_fresh[OF inv])
  show ?thesis
  proof (cases "parent ?el")
    case None
    then have "convertElementToSkeleton h e cr s = Some (None, s)"
      using cur by (simp add: convertElementToSkeleton_def)
    with res have "s1 = s" by simp
    moreover have "R e = [e] \<longrightarrow> parent el0 = None" using None by (simp split: if_splits)
    ultimately show ?thesis using inv by (intro exI[of _ R]) auto
  next
    case (Some p)
    then have Re: "R e = [e]" and p0: "parent el0 = Some p"
      by (auto split: if_splits)
    from wf_parent[OF wf e0 p0] obtain pn0 where pn0: "nodes s0 p = Some pn0"
      and ein: "e \<in> set (children pn0)" by blast
    have p_lt0: "p < fresh s0" by (rule wf_lt[OF wf pn0])
    have dist: "distinct (children pn0)" and pnot: "p \<notin> set (children pn0)"
      using wf_children[OF wf pn0] by auto
    have ep: "e \<noteq> p" using ein pnot by auto
    let ?pn = "pn0\<lparr>children := concat (map R (children pn0)),
                    parent := (if R p = [p] then parent pn0 else None)\<rparr>"
    have curp: "nodes s p = Some ?pn" by (rule rewritten_nodes[OF inv pn0])
    have ein': "e \<in> set (children ?pn)" using ein Re by (auto intro!: bexI[of _ e])
    have lts: "e < fresh s" "p < fresh s" using e_lt0 p_lt0 fr by auto
    have pel: "parent ?el = Some p" using Some .
    note step = convert_step[OF cur pel curp ein' lts ep res]
    have fontcong: "fst (getFontSizeAndLoadFont h ?el s) = fst (getFontSizeAndLoadFont h el0 s0)"
      by (rule getFont_fst_cong) simp_all
    from step show ?thesis
    proof (elim disjE conjE exE)
      fix x
      assume t: "ntype ?el = TEXT" and f: "fst (getFontSizeAndLoadFont h ?el s) = Inl x"
        and n: "nodes s1 = nodes s" and fs: "fresh s1 = fresh s"
        and fam: "familyName (fontName ?el) \<in> notifiedFontFamilies s1"
      have "rewritten s0 R s1" by (rule rewritten_same_nodes[OF inv n fs])
      moreover have "placed h cr s0 R s \<longrightarrow> placed h cr s0 R s1"
        using placed_same_nodes[OF _ n fs] by blast
      moreover have "ntype el0 = TEXT" using t by simp
      moreover have "fst (getFontSizeAndLoadFont h el0 s0) = Inl x"
        using f fontcong by simp
      moreover have "familyName (fontName el0) \<in> notifiedFontFamilies s1"
        using fam by simp
      ultimately show ?thesis by (intro exI[of _ R]) auto
    next
      fix n
      assume err: "err = None"
        and fok: "ntype ?el = TEXT \<longrightarrow> (\<exists>fs. fst (getFontSizeAndLoadFont h ?el s) = Inr fs)"
        and fs1: "fresh s1 = fresh s + n"
        and pos: "0 < height ?el \<longrightarrow> 0 < n"
        and ne: "nodes s1 e = Some (?el\<lparr>parent := None\<rparr>)"
        and np: "nodes s1 p =
                   Some (?pn\<lparr>children := take (nat (indexOf (children ?pn) e)) (children ?pn)
                                          @ [fresh s ..< fresh s + n]
                                          @ drop (Suc (nat (indexOf (children ?pn) e))) (children ?pn)\<rparr>)"
        and new: "\<forall>q. fresh s \<le> q \<and> q < fresh s + n \<longrightarrow>
                      (\<exists>b. nodes s1 q = Some b \<and> ntype b = RECTANGLE \<and> parent b = Some p
                           \<and> children b = [])"
        and same: "\<forall>q. q \<noteq> e \<and> q \<noteq> p \<and> \<not> (fresh s \<le> q \<and> q < fresh s + n) \<longrightarrow>
                      nodes s1 q = nodes s q"
      let ?news = "[fresh s ..< fresh s + n]"
      let ?R = "R(e := ?news)"
      have news_ne: "?news \<noteq> [e]"
      proof
        assume "?news = [e]"
        then have "e \<in> set ?news" by simp
        then show False using lts by simp
      qed
      have chp: "take (nat (indexOf (children ?pn) e)) (children ?pn) @ ?news
                   @ drop (Suc (nat (indexOf (children ?pn) e))) (children ?pn)
                 = concat (map ?R (children pn0))"
      proof -
        have c: "children ?pn = concat (map R (children pn0))" by simp
        have o: "\<And>c. c \<in> set (children pn0) \<Longrightarrow> c \<noteq> e \<Longrightarrow> e \<notin> set (R c)"
          using rewritten_notin[OF inv e_lt0] by blast
        show ?thesis unfolding c
          by (rule concat_map_replace[of "children pn0" e R, OF dist ein Re o])
      qed
      have part2: "\<forall>q nd. nodes s0 q = Some nd \<longrightarrow>
         nodes s1 q = Some (nd\<lparr>children := concat (map ?R (children nd)),
                               parent := (if ?R q = [q] then parent nd else None)\<rparr>)"
      proof (intro allI impI)
        fix q nd assume q0: "nodes s0 q = Some nd"
        have q_lt: "q < fresh s" using wf_lt[OF wf q0] fr by simp
        note curq = rewritten_nodes[OF inv q0]
        consider "q = e" | "q \<noteq> e" "q = p" | "q \<noteq> e" "q \<noteq> p" by blast
        then show "nodes s1 q = Some (nd\<lparr>children := concat (map ?R (children nd)),
                               parent := (if ?R q = [q] then parent nd else None)\<rparr>)"
        proof cases
          case 1
          then have nd: "nd = el0" using q0 e0 by simp
          have "e \<notin> set (children el0)" using wf_children[OF wf e0] by simp
          then have "concat (map ?R (children el0)) = concat (map R (children el0))"
            by (rule concat_map_same)
          then show ?thesis using 1 nd ne news_ne by simp
        next
          case 2
          then have nd: "nd = pn0" using q0 pn0 by simp
          show ?thesis using 2 nd np chp by simp
        next
          case 3
          have "nodes s1 q = nodes s q" using same 3 q_lt by simp
          moreover have "e \<notin> set (children nd)"
          proof
            assume "e \<in> set (children nd)"
            from wf_child[OF wf q0 this] e0 p0 3 show False by simp
          qed
          then have "concat (map ?R (children nd)) = concat (map R (children nd))"
            by (rule concat_map_same)
          ultimately show ?thesis using curq 3 by simp
        qed
      qed
      have part3: "\<forall>q. ?R q = [q] \<or>
         (\<exists>nd p'. nodes s0 q = Some nd \<and> parent nd = Some p' \<and>
            (\<forall>r \<in> set (?R q). fresh s0 \<le> r \<and> r < fresh s1 \<and>
               (\<exists>b. nodes s1 r = Some b \<and> ntype b = RECTANGLE \<and> parent b = Some p'
                    \<and> children b = [])))"
      proof
        fix q
        show "?R q = [q] \<or>
         (\<exists>nd p'. nodes s0 q = Some nd \<and> parent nd = Some p' \<and>
            (\<forall>r \<in> set (?R q). fresh s0 \<le> r \<and> r < fresh s1 \<and>
               (\<exists>b. nodes s1 r = Some b \<and> ntype b = RECTANGLE \<and> parent b = Some p'
                    \<and> children b = [])))"
        proof (cases "q = e")
          case True
          have "\<forall>r \<in> set ?news. fresh s0 \<le> r \<and> r < fresh s1 \<and>
               (\<exists>b. nodes s1 r = Some b \<and> ntype b = RECTANGLE \<and> parent b = Some p
                    \<and> children b = [])"
            using new fr fs1 by auto
          then show ?thesis using True e0 p0 by auto
        next
          case False
          show ?thesis
          proof (cases "R q = [q]")
            case True
            then show ?thesis using False by simp
          next
            case nb: False
            from rewritten_block[OF inv nb] obtain nd p' where
              b: "nodes s0 q = Some nd" "parent nd = Some p'"
              "\<forall>r \<in> set (R q). fresh s0 \<le> r \<and> r < fresh s \<and>
               (\<exists>b. nodes s r = Some b \<and> ntype b = RECTANGLE \<and> parent b = Some p'
                    \<and> children b = [])"
              by blast
            have "\<forall>r \<in> set (R q). fresh s0 \<le> r \<and> r < fresh s1 \<and>
               (\<exists>b. nodes s1 r = Some b \<and> ntype b = RECTANGLE \<and> parent b = Some p'
                    \<and> children b = [])"
            proof
              fix r assume r: "r \<in> set (R q)"
              with b(3) have rr: "fresh s0 \<le> r" "r < fresh s"
                "\<exists>b. nodes s r = Some b \<and> ntype b = RECTANGLE \<and> parent b = Some p'
                    \<and> children b = []" by auto
              have "nodes s1 r = nodes s r" using same rr(1,2) e_lt0 p_lt0 by simp
              then show "fresh s0 \<le> r \<and> r < fresh s1 \<and>
               (\<exists>b. nodes s1 r = Some b \<and> ntype b = RECTANGLE \<and> parent b = Some p'
                    \<and> children b = [])"
                using rr fs1 by simp
            qed
            then show ?thesis using False b by auto
          qed
        qed
      qed
      have rw: "rewritten s0 ?R s1"
        unfolding rewritten_def using part2 part3 fr fs1 by simp
      have nonempty: "0 < height el0 \<longrightarrow> ?news \<noteq> []" using pos by simp
      have nofail: "\<not> (ntype el0 = TEXT \<and> (\<exists>x. fst (getFontSizeAndLoadFont h el0 s0) = Inl x))"
        using fok fontcong by auto
      have pl: "placed h cr s0 R s \<longrightarrow> placed h cr s0 ?R s1"
      proof
        assume P: "placed h cr s0 R s"
        from convert_step_content[OF cur pel curp ein' lts ep res fs1 fok]
        obtain fs where cnt: "if ntype ?el = TEXT then
                 fst (getFontSizeAndLoadFont h ?el s) = Inr fs
                 \<and> lineCount (height ?el) (lineHeightValue (lineHeight ?el) fs) = Some n
               else n = 1"
          and recs: "\<forall>i<n. nodes s1 (fresh s + i)
                         = Some ((placeholder cr ?el fs n i)\<lparr>parent := Some p\<rparr>)"
          by blast
        have pe: "\<And>i. placeholder cr ?el fs n i = placeholder cr el0 fs n i"
          by (simp add: placeholder_def textBar_def shapePlaceholder_def)
        have cnt0: "if ntype el0 = TEXT then
                 fst (getFontSizeAndLoadFont h el0 s0) = Inr fs
                 \<and> lineCount (height el0) (lineHeightValue (lineHeight el0) fs) = Some n
               else n = 1"
          using cnt fontcong by (simp split: if_splits)
        have recs0: "\<forall>i<n. nodes s1 (fresh s + i)
                         = Some ((placeholder cr el0 fs n i)\<lparr>parent := Some p\<rparr>)"
          using recs pe by simp
        have le: "fresh s + n \<le> fresh s1" using fs1 by simp
        have se: "standsFor h cr s0 s1 e ?news"
          unfolding standsFor_def
          apply (rule exI[of _ el0], rule exI[of _ p], rule exI[of _ fs], rule exI[of _ n],
                 rule exI[of _ "fresh s"])
          using e0 p0 fr cnt0 recs0 le by (intro conjI) simp_all
        show "placed h cr s0 ?R s1"
          unfolding placed_def
        proof
          fix q
          show "?R q = [q] \<or> standsFor h cr s0 s1 q (?R q)"
          proof (cases "q = e")
            case True
            then show ?thesis using se by simp
          next
            case False
            from P have "R q = [q] \<or> standsFor h cr s0 s q (R q)"
              unfolding placed_def by blast
            then show ?thesis
            proof
              assume "R q = [q]"
              then show ?thesis using False by simp
            next
              assume "standsFor h cr s0 s q (R q)"
              then have "standsFor h cr s0 s1 q (R q)"
              proof (rule standsFor_keep)
                show "fresh s \<le> fresh s1" using fs1 by simp
              next
                fix r assume "fresh s0 \<le> r" "r < fresh s"
                then show "nodes s1 r = nodes s r" using same e_lt0 p_lt0 by simp
              qed
              then show ?thesis using False by simp
            qed
          qed
        qed
      qed
      show ?thesis
        using rw news_ne nonempty Re nofail pl by (intro exI[of _ ?R]) simp
    qed
  qed
qed

lemma those_map_Some:
  "those (map f cs) = Some rs \<Longrightarrow> c \<in> set cs \<Longrightarrow> \<exists>r \<in> set rs. f c = Some r"
proof (induction cs arbitrary: rs)
  case Nil
  then show ?case by simp
next
  case (Cons a cs)
  then show ?case by (auto split: option.splits)
qed

lemma those_map_elem:
  "those (map f cs) = Some rs \<Longrightarrow> r \<in> set rs \<Longrightarrow> \<exists>c \<in> set cs. f c = Some r"
proof (induction cs arbitrary: rs)
  case Nil
  then show ?case by simp
next
  case (Cons a cs)
  then show ?case by (auto split: option.splits)
qed

lemma collect_sound:
  "collectElements k s r = Some wl \<Longrightarrow> x \<in> set wl \<Longrightarrow>
     inSubtree s r x \<and> shouldConvertToSkeleton (nodes s x)"
proof (induction k arbitrary: r wl)
  case 0
  then show ?case by simp
next
  case (Suc k)
  show ?case
  proof (cases "nodes s r")
    case None
    with Suc.prems show ?thesis by simp
  next
    case (Some nd)
    with Suc.prems obtain rs where rs: "those (map (collectElements k s) (children nd)) = Some rs"
      and wl: "wl = (if shouldConvertToSkeleton (Some nd) then [r] else []) @ concat rs"
      by (auto split: option.splits)
    from Suc.prems(2) wl consider "x = r" "shouldConvertToSkeleton (Some nd)"
      | w where "w \<in> set rs" "x \<in> set w"
      by (auto split: if_splits)
    then show ?thesis
    proof cases
      case 1
      then show ?thesis using Some by (simp add: inSubtree.self)
    next
      case 2
      from those_map_elem[OF rs 2(1)] obtain c where c: "c \<in> set (children nd)"
        "collectElements k s c = Some w" by blast
      from Suc.IH[OF c(2) 2(2)] show ?thesis
        using inSubtree.child[OF Some c(1)] by blast
    qed
  qed
qed

lemma collect_complete:
  "inSubtree s r e \<Longrightarrow> collectElements k s r = Some wl \<Longrightarrow>
     shouldConvertToSkeleton (nodes s e) \<Longrightarrow> e \<in> set wl"
proof (induction arbitrary: k wl rule: inSubtree.induct)
  case (self r)
  then obtain k' where k: "k = Suc k'" by (cases k) auto
  from self show ?case unfolding k
    by (auto simp: shouldConvertToSkeleton_def split: option.splits)
next
  case (child r nd c e)
  then obtain k' where k: "k = Suc k'" by (cases k) auto
  from child.prems(1) child.hyps(1) obtain rs where
    rs: "those (map (collectElements k' s) (children nd)) = Some rs"
    and wl: "wl = (if shouldConvertToSkeleton (Some nd) then [r] else []) @ concat rs"
    unfolding k by (auto split: option.splits)
  from those_map_Some[OF rs child.hyps(2)] obtain w where w: "w \<in> set rs"
    "collectElements k' s c = Some w" by blast
  from child.IH[OF w(2) child.prems(2)] have "e \<in> set w" .
  with w(1) wl show ?case by auto
qed

lemma convertEach_rewritten:
  assumes wf: "wellFormed s0"
  shows "rewritten s0 R s \<Longrightarrow> \<forall>e \<in> set wl. nodes s0 e \<noteq> None \<Longrightarrow>
     convertEach h cr wl s = Some s' \<Longrightarrow>
     \<exists>R'. rewritten s0 R' s' \<and> (\<forall>q. R q \<noteq> [q] \<longrightarrow> R' q = R q)
        \<and> (\<forall>q. q \<notin> set wl \<longrightarrow> R' q = R q)
        \<and> (\<forall>e el0. e \<in> set wl \<and> nodes s0 e = Some el0 \<and> parent el0 \<noteq> None \<and> 0 < height el0
               \<and> (ntype el0 = TEXT \<longrightarrow> (\<exists>fs. fst (getFontSizeAndLoadFont h el0 s0) = Inr fs))
             \<longrightarrow> R' e \<noteq> [e] \<and> (R e = [e] \<longrightarrow> R' e \<noteq> []))
        \<and> (\<forall>e el0. e \<in> set wl \<and> nodes s0 e = Some el0 \<and> parent el0 \<noteq> None
               \<and> ntype el0 = TEXT \<and> (\<exists>x. fst (getFontSizeAndLoadFont h el0 s0) = Inl x)
               \<and> R e = [e]
             \<longrightarrow> R' e = [e] \<and> familyName (fontName el0) \<in> notifiedFontFamilies s')
        \<and> (placed h cr s0 R s \<longrightarrow> placed h cr s0 R' s')"
proof (induction wl arbitrary: R s)
  case Nil
  then show ?case by (intro exI[of _ R]) simp
next
  case (Cons e es)
  from Cons.prems(3) obtain err s1 where
    c: "convertElementToSkeleton h e cr s = Some (err, s1)"
    and rest: "convertEach h cr es s1 = Some s'"
    by (auto split: option.splits)
  from Cons.prems(2) obtain el where el: "nodes s0 e = Some el" by auto
  from convertElement_rewritten[OF wf Cons.prems(1) el c]
  obtain R1 where r1: "rewritten s0 R1 s1" and o1: "\<And>q. q \<noteq> e \<Longrightarrow> R1 q = R q"
    and k1: "R e \<noteq> [e] \<Longrightarrow> R1 e = R e"
    and d1: "R e = [e] \<and> parent el \<noteq> None \<and> 0 < height el
                \<and> (ntype el = TEXT \<longrightarrow> (\<exists>fs. fst (getFontSizeAndLoadFont h el s0) = Inr fs))
               \<Longrightarrow> R1 e \<noteq> [e] \<and> R1 e \<noteq> []"
    and f1: "R e = [e] \<and> parent el \<noteq> None \<and> ntype el = TEXT
                \<and> (\<exists>x. fst (getFontSizeAndLoadFont h el s0) = Inl x)
               \<Longrightarrow> R1 e = [e] \<and> familyName (fontName el) \<in> notifiedFontFamilies s1"
    and p1: "placed h cr s0 R s \<Longrightarrow> placed h cr s0 R1 s1"
    by blast
  have es: "\<forall>e \<in> set es. nodes s0 e \<noteq> None" using Cons.prems(2) by simp
  from Cons.IH[OF r1 es rest]
  obtain R' where r': "rewritten s0 R' s'" and k': "\<And>q. R1 q \<noteq> [q] \<Longrightarrow> R' q = R1 q"
    and o': "\<And>q. q \<notin> set es \<Longrightarrow> R' q = R1 q"
    and d': "\<And>x el0. x \<in> set es \<and> nodes s0 x = Some el0 \<and> parent el0 \<noteq> None \<and> 0 < height el0
               \<and> (ntype el0 = TEXT \<longrightarrow> (\<exists>fs. fst (getFontSizeAndLoadFont h el0 s0) = Inr fs))
             \<Longrightarrow> R' x \<noteq> [x] \<and> (R1 x = [x] \<longrightarrow> R' x \<noteq> [])"
    and f': "\<And>x el0. x \<in> set es \<and> nodes s0 x = Some el0 \<and> parent el0 \<noteq> None
               \<and> ntype el0 = TEXT \<and> (\<exists>x. fst (getFontSizeAndLoadFont h el0 s0) = Inl x)
               \<and> R1 x = [x]
             \<Longrightarrow> R' x = [x] \<and> familyName (fontName el0) \<in> notifiedFontFamilies s'"
    and p': "placed h cr s0 R1 s1 \<Longrightarrow> placed h cr s0 R' s'"
    by blast
  have mono: "notifiedFontFamilies s1 \<subseteq> notifiedFontFamilies s'"
    using logStep_convertEach[OF rest] by (simp add: logStep_def)
  have keep: "\<forall>q. R q \<noteq> [q] \<longrightarrow> R' q = R q"
  proof (intro allI impI)
    fix q assume q: "R q \<noteq> [q]"
    show "R' q = R q"
    proof (cases "q = e")
      case True
      with q k1 have "R1 e = R e" by simp
      with q True k'[of e] show ?thesis by simp
    next
      case False
      with o1 q have "R1 q = R q" by simp
      with q k'[of q] show ?thesis by simp
    qed
  qed
  have out: "\<forall>q. q \<notin> set (e # es) \<longrightarrow> R' q = R q"
    using o1 o' by simp
  have conv: "\<forall>x el0. x \<in> set (e # es) \<and> nodes s0 x = Some el0 \<and> parent el0 \<noteq> None \<and> 0 < height el0
               \<and> (ntype el0 = TEXT \<longrightarrow> (\<exists>fs. fst (getFontSizeAndLoadFont h el0 s0) = Inr fs))
             \<longrightarrow> R' x \<noteq> [x] \<and> (R x = [x] \<longrightarrow> R' x \<noteq> [])"
  proof (intro allI impI)
    fix x el0
    assume a: "x \<in> set (e # es) \<and> nodes s0 x = Some el0 \<and> parent el0 \<noteq> None \<and> 0 < height el0
               \<and> (ntype el0 = TEXT \<longrightarrow> (\<exists>fs. fst (getFontSizeAndLoadFont h el0 s0) = Inr fs))"
    show "R' x \<noteq> [x] \<and> (R x = [x] \<longrightarrow> R' x \<noteq> [])"
    proof (cases "x = e")
      case True
      with a el have el0: "el0 = el" by simp
      show ?thesis
      proof (cases "R e = [e]")
        case Re: True
        with d1 a el0 have "R1 e \<noteq> [e]" "R1 e \<noteq> []" by auto
        with k'[of e] True show ?thesis by simp
      next
        case False
        with keep True show ?thesis by simp
      qed
    next
      case False
      with a have "x \<in> set es" by simp
      with d'[of x el0] a have "R' x \<noteq> [x]" "R1 x = [x] \<longrightarrow> R' x \<noteq> []" by auto
      with o1[OF False] show ?thesis by simp
    qed
  qed
  have fail: "\<forall>x el0. x \<in> set (e # es) \<and> nodes s0 x = Some el0 \<and> parent el0 \<noteq> None
               \<and> ntype el0 = TEXT \<and> (\<exists>x. fst (getFontSizeAndLoadFont h el0 s0) = Inl x)
               \<and> R x = [x]
             \<longrightarrow> R' x = [x] \<and> familyName (fontName el0) \<in> notifiedFontFamilies s'"
  proof (intro allI impI)
    fix x el0
    assume a: "x \<in> set (e # es) \<and> nodes s0 x = Some el0 \<and> parent el0 \<noteq> None
               \<and> ntype el0 = TEXT \<and> (\<exists>x. fst (getFontSizeAndLoadFont h el0 s0) = Inl x)
               \<and> R x = [x]"
    show "R' x = [x] \<and> familyName (fontName el0) \<in> notifiedFontFamilies s'"
    proof (cases "x = e")
      case True
      with a el have el0: "el0 = el" by simp
      from f1 a True el0 have r1e: "R1 e = [e]"
        and fam: "familyName (fontName el) \<in> notifiedFontFamilies s1" by auto
      have "R' e = [e]"
      proof (cases "e \<in> set es")
        case True
        with f'[of e el] a el0 r1e \<open>x = e\<close> show ?thesis by auto
      next
        case False
        with o'[of e] r1e show ?thesis by simp
      qed
      with fam mono True el0 show ?thesis by auto
    next
      case False
      with a have "x \<in> set es" by simp
      moreover have "R1 x = [x]" using o1[OF False] a by simp
      ultimately show ?thesis using f'[of x el0] a by auto
    qed
  qed
  have pl: "placed h cr s0 R s \<longrightarrow> placed h cr s0 R' s'" using p1 p' by blast
  from r' keep out conv fail pl show ?case by blast
qed


lemma convertToSkeleton_rewritten:
  assumes wf: "wellFormed s" and run: "convertToSkeleton h fuel rt cr s = Some s'"
  shows "\<exists>R. rewritten s R s'
           \<and> (\<forall>e el0. inSubtree s rt e \<and> shouldConvertToSkeleton (Some el0)
                 \<and> nodes s e = Some el0 \<and> parent el0 \<noteq> None
                 \<and> (ntype el0 = TEXT \<longrightarrow> (\<exists>fs. fst (getFontSizeAndLoadFont h el0 s) = Inr fs))
               \<longrightarrow> R e \<noteq> [e] \<and> R e \<noteq> [])
           \<and> (\<forall>e el0. inSubtree s rt e \<and> shouldConvertToSkeleton (Some el0)
                 \<and> nodes s e = Some el0 \<and> parent el0 \<noteq> None \<and> ntype el0 = TEXT
                 \<and> (\<exists>x. fst (getFontSizeAndLoadFont h el0 s) = Inl x)
               \<longrightarrow> R e = [e] \<and> familyName (fontName el0) \<in> notifiedFontFamilies s')
           \<and> placed h cr s R s'
           \<and> (\<forall>c. R c \<noteq> [c] \<longrightarrow>
                 (\<exists>el. nodes s c = Some el \<and> shouldConvertToSkeleton (Some el)
                       \<and> inSubtree s rt c))"
proof -
  from run obtain wl where wl: "collectElements fuel s rt = Some wl"
    and ce: "convertEach h cr (rev wl) s = Some s'"
    by (auto simp: convertToSkeleton_def split: option.splits)
  have dom: "\<forall>e \<in> set (rev wl). nodes s e \<noteq> None"
    using collect_sound[OF wl] by (fastforce simp: shouldConvertToSkeleton_def split: option.splits)
  from convertEach_rewritten[OF wf rewritten_refl dom ce]
  obtain R where R: "rewritten s R s'"
    and conv: "\<And>e el0. e \<in> set (rev wl) \<and> nodes s e = Some el0 \<and> parent el0 \<noteq> None \<and> 0 < height el0
               \<and> (ntype el0 = TEXT \<longrightarrow> (\<exists>fs. fst (getFontSizeAndLoadFont h el0 s) = Inr fs))
             \<Longrightarrow> R e \<noteq> [e] \<and> ([e] = [e] \<longrightarrow> R e \<noteq> [])"
    and fail: "\<And>e el0. e \<in> set (rev wl) \<and> nodes s e = Some el0 \<and> parent el0 \<noteq> None
               \<and> ntype el0 = TEXT \<and> (\<exists>x. fst (getFontSizeAndLoadFont h el0 s) = Inl x)
               \<and> [e] = [e]
             \<Longrightarrow> R e = [e] \<and> familyName (fontName el0) \<in> notifiedFontFamilies s'"
    and out: "\<And>q. q \<notin> set (rev wl) \<Longrightarrow> R q = [q]"
    and pl: "placed h cr s (\<lambda>q. [q]) s \<Longrightarrow> placed h cr s R s'"
    by blast
  have placed: "placed h cr s R s'" using pl placed_refl by blast
  have only: "\<forall>c. R c \<noteq> [c] \<longrightarrow>
                 (\<exists>el. nodes s c = Some el \<and> shouldConvertToSkeleton (Some el)
                       \<and> inSubtree s rt c)"
  proof (intro allI impI)
    fix c assume "R c \<noteq> [c]"
    with out[of c] have c: "c \<in> set wl" by auto
    from collect_sound[OF wl c] have "inSubtree s rt c" "shouldConvertToSkeleton (nodes s c)"
      by simp_all
    moreover from this(2) obtain el where "nodes s c = Some el"
      by (cases "nodes s c") (simp_all add: shouldConvertToSkeleton_def)
    ultimately show "\<exists>el. nodes s c = Some el \<and> shouldConvertToSkeleton (Some el)
                       \<and> inSubtree s rt c" by auto
  qed
  have "\<forall>e el0. inSubtree s rt e \<and> shouldConvertToSkeleton (Some el0)
                 \<and> nodes s e = Some el0 \<and> parent el0 \<noteq> None
                 \<and> (ntype el0 = TEXT \<longrightarrow> (\<exists>fs. fst (getFontSizeAndLoadFont h el0 s) = Inr fs))
               \<longrightarrow> R e \<noteq> [e] \<and> R e \<noteq> []"
  proof (intro allI impI)
    fix e el0
    assume a: "inSubtree s rt e \<and> shouldConvertToSkeleton (Some el0)
                 \<and> nodes s e = Some el0 \<and> parent el0 \<noteq> None
                 \<and> (ntype el0 = TEXT \<longrightarrow> (\<exists>fs. fst (getFontSizeAndLoadFont h el0 s) = Inr fs))"
    then have "e \<in> set wl" using collect_complete[OF _ wl, of e] by simp
    moreover have "0 < height el0"
      using a by (auto simp: shouldConvertToSkeleton_def split: if_splits)
    ultimately show "R e \<noteq> [e] \<and> R e \<noteq> []" using conv[of e el0] a by simp
  qed
  moreover have "\<forall>e el0. inSubtree s rt e \<and> shouldConvertToSkeleton (Some el0)
                 \<and> nodes s e = Some el0 \<and> parent el0 \<noteq> None \<and> ntype el0 = TEXT
                 \<and> (\<exists>x. fst (getFontSizeAndLoadFont h el0 s) = Inl x)
               \<longrightarrow> R e = [e] \<and> familyName (fontName el0) \<in> notifiedFontFamilies s'"
  proof (intro allI impI)
    fix e el0
    assume a: "inSubtree s rt e \<and> shouldConvertToSkeleton (Some el0)
                 \<and> nodes s e = Some el0 \<and> parent el0 \<noteq> None \<and> ntype el0 = TEXT
                 \<and> (\<exists>x. fst (getFontSizeAndLoadFont h el0 s) = Inl x)"
    then have "e \<in> set wl" using collect_complete[OF _ wl, of e] by simp
    then show "R e = [e] \<and> familyName (fontName el0) \<in> notifiedFontFamilies s'"
      using fail[of e el0] a by simp
  qed
  ultimately show ?thesis using R placed only by blast
qed




text \<open>
  C10, as stated, fails for text: a locked, visible text of size 100 by 20 whose font
  cannot be loaded is classified as convertible, yet the conversion leaves it in place
  and creates nothing.
\<close>

theorem locked_text_without_font_stays:
  "locked lockedTitle \<and> visible lockedTitle \<and> ntype lockedTitle = TEXT
   \<and> 4 \<le> width lockedTitle \<and> 4 \<le> height lockedTitle
   \<and> nodes lockedTitleDoc 2 = Some lockedTitle
   \<and> shouldConvertToSkeleton (Some lockedTitle)
   \<and> (case convertToSkeleton noFonts 2 1 8 lockedTitleDoc of
         None \<Rightarrow> False
       | Some s' \<Rightarrow> nodes s' 2 = Some lockedTitle
                     \<and> map_option children (nodes s' 1) = Some [2]
                     \<and> fresh s' = fresh lockedTitleDoc)"
  by code_simp

text \<open>
  C10, amended. The classifier does not read the locked flag. A locked, visible node of
  a convertible type with width and height at least 4 that lies in the converted
  subtree and has a parent is classified as convertible and, unless it is a text whose
  font does not resolve, it is detached and a non-empty run of new rectangles stands
  in its parent's child list. At the selection level a locked frame, component or
  instance is skipped.
\<close>

theorem locked_node_is_replaced:
  assumes wf: "wellFormed s" and run: "convertToSkeleton h fuel rt cr s = Some s'"
    and sub: "inSubtree s rt e"
    and el: "nodes s e = Some el" "parent el = Some p"
    and lk: "locked el" "visible el" "4 \<le> width el" "4 \<le> height el"
      "ntype el \<in> set convertibleTypes"
    and font: "ntype el = TEXT \<longrightarrow> (\<exists>fs. fst (getFontSizeAndLoadFont h el s) = Inr fs)"
  shows "shouldConvertToSkeleton (Some el)
     \<and> shouldConvertToSkeleton (Some (el\<lparr>locked := False\<rparr>))
     \<and> (\<exists>el' pn pn' block.
           nodes s' e = Some el' \<and> parent el' = None
           \<and> nodes s p = Some pn \<and> e \<in> set (children pn)
           \<and> nodes s' p = Some pn' \<and> e \<notin> set (children pn')
           \<and> block \<noteq> [] \<and> set block \<subseteq> set (children pn')
           \<and> (\<forall>r \<in> set block. fresh s \<le> r \<and> r < fresh s'
                 \<and> (\<exists>b. nodes s' r = Some b \<and> ntype b = RECTANGLE \<and> parent b = Some p)))
     \<and> (\<forall>x nd rest processedFrames hasErrors.
           nodes s x = Some nd \<and> locked nd \<and> ntype nd \<in> {FRAME, COMPONENT, INSTANCE}
           \<longrightarrow> processSelection h fuel cr (x # rest) processedFrames hasErrors s
               = processSelection h fuel cr rest processedFrames hasErrors s)"
proof -
  have sc: "shouldConvertToSkeleton (Some el)"
    "shouldConvertToSkeleton (Some (el\<lparr>locked := False\<rparr>))"
    using lk by (simp_all add: shouldConvertToSkeleton_def not_less)
  from convertToSkeleton_rewritten[OF wf run] obtain R where R: "rewritten s R s'"
    and conv: "\<And>e el0. inSubtree s rt e \<and> shouldConvertToSkeleton (Some el0)
                 \<and> nodes s e = Some el0 \<and> parent el0 \<noteq> None
                 \<and> (ntype el0 = TEXT \<longrightarrow> (\<exists>fs. fst (getFontSizeAndLoadFont h el0 s) = Inr fs))
               \<Longrightarrow> R e \<noteq> [e] \<and> R e \<noteq> []"
    by blast
  from conv[of e el] sub sc el font have Re: "R e \<noteq> [e]" "R e \<noteq> []" by auto
  from wf_parent[OF wf el] obtain pn where pn: "nodes s p = Some pn" "e \<in> set (children pn)"
    by blast
  let ?pn' = "pn\<lparr>children := concat (map R (children pn)),
                   parent := (if R p = [p] then parent pn else None)\<rparr>"
  have np: "nodes s' p = Some ?pn'" by (rule rewritten_nodes[OF R pn(1)])
  have ne: "nodes s' e = Some (el\<lparr>children := concat (map R (children el)), parent := None\<rparr>)"
    using rewritten_nodes[OF R el(1)] Re by simp
  have e_lt: "e < fresh s" by (rule wf_lt[OF wf el(1)])
  from rewritten_block[OF R Re(1)] el have blk:
    "\<forall>r \<in> set (R e). fresh s \<le> r \<and> r < fresh s'
         \<and> (\<exists>b. nodes s' r = Some b \<and> ntype b = RECTANGLE \<and> parent b = Some p)"
    by auto
  have notin: "e \<notin> set (children ?pn')"
  proof
    assume "e \<in> set (children ?pn')"
    then obtain c where c: "c \<in> set (children pn)" "e \<in> set (R c)" by auto
    show False
    proof (cases "c = e")
      case True
      with c blk e_lt show False by auto
    next
      case False
      with rewritten_notin[OF R e_lt, of c] c show False by simp
    qed
  qed
  have sub': "set (R e) \<subseteq> set (children ?pn')" using pn(2) by auto
  have sel: "\<forall>x nd rest processedFrames hasErrors.
           nodes s x = Some nd \<and> locked nd \<and> ntype nd \<in> {FRAME, COMPONENT, INSTANCE}
           \<longrightarrow> processSelection h fuel cr (x # rest) processedFrames hasErrors s
               = processSelection h fuel cr rest processedFrames hasErrors s"
    by auto
  have "\<exists>el' pn pn' block.
           nodes s' e = Some el' \<and> parent el' = None
           \<and> nodes s p = Some pn \<and> e \<in> set (children pn)
           \<and> nodes s' p = Some pn' \<and> e \<notin> set (children pn')
           \<and> block \<noteq> [] \<and> set block \<subseteq> set (children pn')
           \<and> (\<forall>r \<in> set block. fresh s \<le> r \<and> r < fresh s'
                 \<and> (\<exists>b. nodes s' r = Some b \<and> ntype b = RECTANGLE \<and> parent b = Some p))"
    apply (rule exI[of _ "el\<lparr>children := concat (map R (children el)), parent := None\<rparr>"])
    apply (rule exI[of _ pn], rule exI[of _ ?pn'], rule exI[of _ "R e"])
    using ne pn np notin Re(2) sub' blk by simp
  with sc sel show ?thesis by blast
qed

lemma lockedPictureDoc_wf: "wellFormed lockedPictureDoc"
  unfolding wellFormed_def
  by (auto simp: lockedPictureDoc_def lockedPicture_def mkNode_def split: if_splits)

theorem locked_node_is_replaced_witness:
  "wellFormed lockedPictureDoc \<and> locked lockedPicture
   \<and> (\<exists>s'. convertToSkeleton allFonts 2 1 8 lockedPictureDoc = Some s'
        \<and> map_option children (nodes s' 1) = Some [3]
        \<and> map_option ntype (nodes s' 3) = Some RECTANGLE
        \<and> (\<exists>el' pn pn' block.
           nodes s' 2 = Some el' \<and> parent el' = None
           \<and> nodes lockedPictureDoc 1 = Some pn \<and> 2 \<in> set (children pn)
           \<and> nodes s' 1 = Some pn' \<and> 2 \<notin> set (children pn')
           \<and> block \<noteq> [] \<and> set block \<subseteq> set (children pn')))"
proof -
  have ev: "(case convertToSkeleton allFonts 2 1 8 lockedPictureDoc of None \<Rightarrow> False
             | Some s' \<Rightarrow> map_option children (nodes s' 1) = Some [3]
                           \<and> map_option ntype (nodes s' 3) = Some RECTANGLE)"
    by code_simp
  then obtain s' where run: "convertToSkeleton allFonts 2 1 8 lockedPictureDoc = Some s'"
    and obs: "map_option children (nodes s' 1) = Some [3]"
      "map_option ntype (nodes s' 3) = Some RECTANGLE"
    by (auto split: option.splits)
  have sub: "inSubtree lockedPictureDoc 1 2"
    by (rule inSubtree.child[of _ _ "mkNode FRAME ''Card'' 0 0 200 100 [2] None" 2])
       (simp_all add: lockedPictureDoc_def mkNode_def inSubtree.self)
  have el: "nodes lockedPictureDoc 2 = Some lockedPicture" "parent lockedPicture = Some 1"
    by (simp_all add: lockedPictureDoc_def lockedPicture_def mkNode_def)
  have lk: "locked lockedPicture" "visible lockedPicture" "4 \<le> width lockedPicture"
    "4 \<le> height lockedPicture" "ntype lockedPicture \<in> set convertibleTypes"
    by (simp_all add: lockedPicture_def mkNode_def convertibleTypes_def)
  have font: "ntype lockedPicture = TEXT \<longrightarrow>
     (\<exists>fs. fst (getFontSizeAndLoadFont allFonts lockedPicture lockedPictureDoc) = Inr fs)"
    by (simp add: lockedPicture_def mkNode_def)
  from locked_node_is_replaced[OF lockedPictureDoc_wf run sub el lk font]
    run obs lockedPictureDoc_wf lk(1)
  show ?thesis by blast
qed

section \<open>Runs over a selection\<close>

lemma processSelection_append:
  "processSelection h fuel cr (xs @ ys) pf he s =
     (case processSelection h fuel cr xs pf he s of
        None \<Rightarrow> None
      | Some (Inl e, s1) \<Rightarrow> Some (Inl e, s1)
      | Some (Inr (pf1, he1), s1) \<Rightarrow> processSelection h fuel cr ys pf1 he1 s1)"
proof (induction xs arbitrary: pf he s)
  case Nil
  then show ?case by simp
next
  case (Cons x xs)
  show ?case
    by (simp add: Cons.IH split: option.splits sum.splits prod.splits)
qed

lemma run_log:
  assumes "createSkeletonVersion h fuel arg s = Some s'"
  shows "\<exists>ws. notifications s' = notifications s @ ws
           \<and> (\<forall>f. count_list ws (FontWarning f)
                    = (if f \<in> notifiedFontFamilies s' then 1 else 0))"
proof -
  let ?s0 = "s\<lparr>notifiedFontFamilies := {}\<rparr>"
  let ?s1 = "if validRadius arg then ?s0 else notify InvalidRadiusNotice ?s0"
  have l01: "logStep ?s0 ?s1" by (simp add: logStep_refl logStep_notify)
  have "\<exists>s2 ms. logStep ?s1 s2 \<and> notifications s' = notifications s2 @ ms
          \<and> (\<forall>f. FontWarning f \<notin> set ms)
          \<and> notifiedFontFamilies s' = notifiedFontFamilies s2"
  proof (cases "selection ?s1 = []")
    case True
    with assms have "s' = notify SelectFrameNotice ?s1"
      by (simp add: createSkeletonVersion_def Let_def)
    then show ?thesis
      by (intro exI[of _ ?s1] exI[of _ "[SelectFrameNotice]"]) (simp add: logStep_refl notify_def)
  next
    case False
    with assms obtain r s2 where
      p: "processSelection h fuel (radiusValue arg) (selection ?s1) [] False ?s1 = Some (r, s2)"
      by (auto simp: createSkeletonVersion_def Let_def split: option.splits)
    note l = logStep_processSelection[OF p]
    show ?thesis
    proof (cases r)
      case (Inl e)
      with assms False p have "s' = notify (ErrorCreating e) s2"
        by (simp add: createSkeletonVersion_def Let_def)
      with l show ?thesis
        by (intro exI[of _ s2] exI[of _ "[ErrorCreating e]"]) (simp add: notify_def)
    next
      case (Inr res)
      obtain pf he where res: "res = (pf, he)" by (cases res)
      let ?m = "if length pf = 1 then SuccessOne else SuccessMany (length pf)"
      from assms False p Inr res have
        "s' = (if he \<and> pf \<noteq> [] then notify SomeInvalid
                 (if pf \<noteq> [] then notify ?m (s2\<lparr>selection := pf\<rparr>) else notify NoValidFrames s2)
               else (if pf \<noteq> [] then notify ?m (s2\<lparr>selection := pf\<rparr>) else notify NoValidFrames s2))"
        by (simp add: createSkeletonVersion_def Let_def)
      then have "\<exists>ms. notifications s' = notifications s2 @ ms
          \<and> (\<forall>f. FontWarning f \<notin> set ms)
          \<and> notifiedFontFamilies s' = notifiedFontFamilies s2"
        by (auto simp: notify_def)
      with l show ?thesis by blast
    qed
  qed
  then obtain s2 ms where l12: "logStep ?s1 s2"
    and n: "notifications s' = notifications s2 @ ms" "\<forall>f. FontWarning f \<notin> set ms"
    and f: "notifiedFontFamilies s' = notifiedFontFamilies s2"
    by blast
  from logStep_trans[OF l01 l12] obtain ws where
    ws: "notifications s2 = notifications s @ ws"
    "\<And>f. count_list ws (FontWarning f) = (if f \<in> notifiedFontFamilies s2 then 1 else 0)"
    unfolding logStep_def by auto
  have "\<And>f. count_list ms (FontWarning f) = 0"
    using n(2) by (simp add: count_list_0_iff)
  then have "\<forall>f. count_list (ws @ ms) (FontWarning f)
                    = (if f \<in> notifiedFontFamilies s' then 1 else 0)"
    using ws(2) f by simp
  moreover have "notifications s' = notifications s @ (ws @ ms)" using n(1) ws(1) by simp
  ultimately show ?thesis by blast
qed

lemma inSubtree_trans: "inSubtree s x y \<Longrightarrow> inSubtree s y z \<Longrightarrow> inSubtree s x z"
proof (induction rule: inSubtree.induct)
  case (self r)
  then show ?case .
next
  case (child r nd k e)
  from child.IH[OF child.prems] have "inSubtree s k z" .
  with child.hyps(1,2) show ?case by (rule inSubtree.child)
qed

lemma inSubtree_step:
  "inSubtree s a b \<Longrightarrow> nodes s b = Some nd \<Longrightarrow> c \<in> set (children nd) \<Longrightarrow> inSubtree s a c"
  by (rule inSubtree_trans) (auto intro: inSubtree.child inSubtree.self)

lemma inSubtree_head:
  "inSubtree s r e \<Longrightarrow>
     e = r \<or> (\<exists>nd c. nodes s r = Some nd \<and> c \<in> set (children nd) \<and> inSubtree s c e)"
  by (erule inSubtree.cases) auto

lemma kept_path:
  assumes R: "rewritten s R s'"
  shows "inSubtree s r e \<Longrightarrow> inSubtree s rt r \<Longrightarrow>
     \<forall>a. a \<noteq> e \<and> inSubtree s rt a \<and> inSubtree s a e \<longrightarrow> R a = [a] \<Longrightarrow> R e = [e] \<Longrightarrow>
     inSubtree s' r e"
proof (induction rule: inSubtree.induct)
  case (self r)
  show ?case by (rule inSubtree.self)
next
  case (child r nd c e)
  have rc: "inSubtree s rt c" by (rule inSubtree_step[OF child.prems(1) child.hyps(1,2)])
  have Rc: "R c = [c]"
  proof (cases "c = e")
    case True
    with child.prems(3) show ?thesis by simp
  next
    case False
    with child.prems(2) rc child.hyps(3) show ?thesis by blast
  qed
  have sub: "inSubtree s' c e" by (rule child.IH[OF rc child.prems(2,3)])
  let ?nd' = "nd\<lparr>children := concat (map R (children nd)),
                   parent := (if R r = [r] then parent nd else None)\<rparr>"
  have n: "nodes s' r = Some ?nd'" by (rule rewritten_nodes[OF R child.hyps(1)])
  have mem: "c \<in> set (children ?nd')" using child.hyps(2) Rc by (auto intro!: bexI[of _ c])
  show ?case by (rule inSubtree.child[OF n mem sub])
qed

text \<open>
  C6, as stated, fails for a text below a node that is itself converted: the text
  whose font does not load is skipped and keeps its record, but the boolean operation
  holding it is replaced by a rectangle, so the text is no longer in the tree of the
  frame.
\<close>

theorem failing_text_leaves_the_tree_with_its_parent:
  "nodes unionDoc 3 = Some unionLabel \<and> ntype unionLabel = TEXT
   \<and> shouldConvertToSkeleton (Some unionLabel)
   \<and> fst (getFontSizeAndLoadFont noFonts unionLabel unionDoc) = Inl (FontLoadError inter)
   \<and> inSubtree unionDoc 1 3
   \<and> (case convertToSkeleton noFonts 3 1 8 unionDoc of
         None \<Rightarrow> False
       | Some s' \<Rightarrow> nodes s' 3 = Some unionLabel
                     \<and> notifications s' = [FontWarning ''Inter'']
                     \<and> map_option children (nodes s' 1) = Some [4]
                     \<and> map_option children (nodes s' 4) = Some []
                     \<and> map_option parent (nodes s' 2) = Some None
                     \<and> \<not> inSubtree s' 1 3)"
proof -
  have ev: "(case convertToSkeleton noFonts 3 1 8 unionDoc of
         None \<Rightarrow> False
       | Some s' \<Rightarrow> nodes s' 3 = Some unionLabel
                     \<and> notifications s' = [FontWarning ''Inter'']
                     \<and> map_option children (nodes s' 1) = Some [4]
                     \<and> map_option children (nodes s' 4) = Some []
                     \<and> map_option parent (nodes s' 2) = Some None)"
    by code_simp
  then obtain s' where run: "convertToSkeleton noFonts 3 1 8 unionDoc = Some s'"
    and obs: "nodes s' 3 = Some unionLabel" "notifications s' = [FontWarning ''Inter'']"
      "map_option children (nodes s' 1) = Some [4]" "map_option children (nodes s' 4) = Some []"
      "map_option parent (nodes s' 2) = Some None"
    by (auto split: option.splits)
  have out: "\<not> inSubtree s' 1 3"
  proof
    assume "inSubtree s' 1 3"
    from inSubtree_head[OF this] obtain nd c where
      a: "nodes s' 1 = Some nd" "c \<in> set (children nd)" "inSubtree s' c 3" by auto
    with obs(3) have c: "c = 4" by auto
    from inSubtree_head[OF a(3)[unfolded c]] obtain nd4 c4 where
      "nodes s' 4 = Some nd4" "c4 \<in> set (children nd4)" by auto
    with obs(4) show False by auto
  qed
  have n3: "nodes unionDoc 3 = Some unionLabel" by (simp add: unionDoc_def)
  have t: "ntype unionLabel = TEXT" "shouldConvertToSkeleton (Some unionLabel)"
    by (simp_all add: unionLabel_def mkNode_def shouldConvertToSkeleton_def convertibleTypes_def)
  have ff: "fst (getFontSizeAndLoadFont noFonts unionLabel unionDoc) = Inl (FontLoadError inter)"
    by (simp add: getFontSizeAndLoadFont_def unionLabel_def mkNode_def inter_def noFonts_def
        fallbackFonts_def)
  have n1: "nodes unionDoc 1 = Some (mkNode FRAME ''Card'' 0 0 200 100 [2] None)"
    and n2: "nodes unionDoc 2 = Some (mkNode BOOLEAN_OPERATION ''Union'' 10 10 100 40 [3] (Some 1))"
    by (simp_all add: unionDoc_def)
  have s12: "inSubtree unionDoc 1 2"
    by (rule inSubtree_step[OF inSubtree.self n1]) (simp add: mkNode_def)
  have sub: "inSubtree unionDoc 1 3"
    by (rule inSubtree_step[OF s12 n2]) (simp add: mkNode_def)
  from n3 t ff sub run obs out show ?thesis by simp
qed

text \<open>
  C6. A run adds to the notifications exactly one font warning for each family in the
  set of notified families it ends with, and no other font warning; the set starts
  empty in every run. When a subtree of a well-formed document is converted, a
  collected text whose font does not resolve has its family in the set afterwards and
  is still in its parent's child list with its record (but for the child list, which
  is that of the record when the text has no children). It is still in the subtree
  converted when no node on a path from the root of the subtree to the text, other
  than the text, is accepted by the classifier. The call of the rewriter on a text
  whose font does not resolve changes no node and creates none.
\<close>

theorem font_warning_once_per_family:
  "(createSkeletonVersion h fuel arg s = Some s' \<longrightarrow>
      (\<exists>ws. notifications s' = notifications s @ ws
         \<and> (\<forall>f. count_list ws (FontWarning f)
                  = (if f \<in> notifiedFontFamilies s' then 1 else 0))))
   \<and> (wellFormed t \<and> convertToSkeleton h fuel rt cr t = Some t' \<and> inSubtree t rt e
        \<and> nodes t e = Some el \<and> shouldConvertToSkeleton (Some el) \<and> ntype el = TEXT
        \<and> parent el = Some p \<and> fst (getFontSizeAndLoadFont h el t) = Inl err \<longrightarrow>
          familyName (fontName el) \<in> notifiedFontFamilies t'
          \<and> notifiedFontFamilies t \<subseteq> notifiedFontFamilies t'
          \<and> (\<exists>el' pn'. nodes t' e = Some el' \<and> el' = el\<lparr>children := children el'\<rparr>
                \<and> (children el = [] \<longrightarrow> el' = el)
                \<and> nodes t' p = Some pn' \<and> e \<in> set (children pn')))
   \<and> (nodes u e = Some el \<and> ntype el = TEXT
        \<and> fst (getFontSizeAndLoadFont h el u) = Inl err \<longrightarrow>
          (\<exists>r u'. convertElementToSkeleton h e cr u = Some (r, u')
             \<and> nodes u' = nodes u \<and> fresh u' = fresh u))
   \<and> (wellFormed t \<and> convertToSkeleton h fuel rt cr t = Some t' \<and> inSubtree t rt e
        \<and> nodes t e = Some el \<and> shouldConvertToSkeleton (Some el) \<and> ntype el = TEXT
        \<and> parent el = Some p \<and> fst (getFontSizeAndLoadFont h el t) = Inl err
        \<and> (\<forall>a an. a \<noteq> e \<and> inSubtree t rt a \<and> inSubtree t a e \<and> nodes t a = Some an
               \<longrightarrow> \<not> shouldConvertToSkeleton (Some an)) \<longrightarrow>
          inSubtree t' rt e)"
proof -
  have one: "createSkeletonVersion h fuel arg s = Some s' \<longrightarrow>
      (\<exists>ws. notifications s' = notifications s @ ws
         \<and> (\<forall>f. count_list ws (FontWarning f)
                  = (if f \<in> notifiedFontFamilies s' then 1 else 0)))"
    using run_log by blast
  have two: "familyName (fontName el) \<in> notifiedFontFamilies t'
          \<and> notifiedFontFamilies t \<subseteq> notifiedFontFamilies t'
          \<and> (\<exists>el' pn'. nodes t' e = Some el' \<and> el' = el\<lparr>children := children el'\<rparr>
                \<and> (children el = [] \<longrightarrow> el' = el)
                \<and> nodes t' p = Some pn' \<and> e \<in> set (children pn'))"
    if a: "wellFormed t \<and> convertToSkeleton h fuel rt cr t = Some t' \<and> inSubtree t rt e
        \<and> nodes t e = Some el \<and> shouldConvertToSkeleton (Some el) \<and> ntype el = TEXT
        \<and> parent el = Some p \<and> fst (getFontSizeAndLoadFont h el t) = Inl err"
  proof -
  from a have wf: "wellFormed t" and run: "convertToSkeleton h fuel rt cr t = Some t'"
    and el: "nodes t e = Some el" "parent el = Some p" by simp_all
  from convertToSkeleton_rewritten[OF wf run] obtain R where R: "rewritten t R t'"
    and fail: "\<And>e el0. inSubtree t rt e \<and> shouldConvertToSkeleton (Some el0)
                 \<and> nodes t e = Some el0 \<and> parent el0 \<noteq> None \<and> ntype el0 = TEXT
                 \<and> (\<exists>x. fst (getFontSizeAndLoadFont h el0 t) = Inl x)
               \<Longrightarrow> R e = [e] \<and> familyName (fontName el0) \<in> notifiedFontFamilies t'"
    by blast
  from fail[of e el] a have Re: "R e = [e]"
    and fam: "familyName (fontName el) \<in> notifiedFontFamilies t'" by auto
  have mono: "notifiedFontFamilies t \<subseteq> notifiedFontFamilies t'"
    using logStep_convertToSkeleton[OF run] by (simp add: logStep_def)
  from wf_parent[OF wf el] obtain pn where pn: "nodes t p = Some pn" "e \<in> set (children pn)"
    by blast
  let ?el' = "el\<lparr>children := concat (map R (children el)), parent := parent el\<rparr>"
  let ?pn' = "pn\<lparr>children := concat (map R (children pn)),
                   parent := (if R p = [p] then parent pn else None)\<rparr>"
  have ne: "nodes t' e = Some ?el'" using rewritten_nodes[OF R el(1)] Re by simp
  have np: "nodes t' p = Some ?pn'" by (rule rewritten_nodes[OF R pn(1)])
  have ein: "e \<in> set (children ?pn')" using pn(2) Re by (auto intro!: bexI[of _ e])
  have "\<exists>el' pn'. nodes t' e = Some el' \<and> el' = el\<lparr>children := children el'\<rparr>
                \<and> (children el = [] \<longrightarrow> el' = el)
                \<and> nodes t' p = Some pn' \<and> e \<in> set (children pn')"
    apply (rule exI[of _ ?el'], rule exI[of _ ?pn'])
    using ne np ein by simp
  with fam mono show ?thesis by blast
  qed
  have three: "\<exists>r u'. convertElementToSkeleton h e cr u = Some (r, u')
             \<and> nodes u' = nodes u \<and> fresh u' = fresh u"
    if a: "nodes u e = Some el \<and> ntype el = TEXT
        \<and> fst (getFontSizeAndLoadFont h el u) = Inl err"
  proof -
  obtain r1 u1 where g: "getFontSizeAndLoadFont h el u = (r1, u1)"
    by (cases "getFontSizeAndLoadFont h el u")
  with a have r1: "r1 = Inl err" by simp
  from getFont_fail[OF g[unfolded r1]] have same: "nodes u1 = nodes u" "fresh u1 = fresh u"
    by simp_all
  from a g r1 have "convertElementToSkeleton h e cr u = Some (Some (MissingNode e), u)
      \<or> convertElementToSkeleton h e cr u = Some (None, u)
      \<or> (\<exists>p. convertElementToSkeleton h e cr u = Some (Some (MissingNode p), u))
      \<or> convertElementToSkeleton h e cr u = Some (None, u1)"
    by (auto simp: convertElementToSkeleton_def Let_def split: option.splits)
  with same show ?thesis by auto
  qed
  have four: "inSubtree t' rt e"
    if a: "wellFormed t \<and> convertToSkeleton h fuel rt cr t = Some t' \<and> inSubtree t rt e
        \<and> nodes t e = Some el \<and> shouldConvertToSkeleton (Some el) \<and> ntype el = TEXT
        \<and> parent el = Some p \<and> fst (getFontSizeAndLoadFont h el t) = Inl err
        \<and> (\<forall>a an. a \<noteq> e \<and> inSubtree t rt a \<and> inSubtree t a e \<and> nodes t a = Some an
               \<longrightarrow> \<not> shouldConvertToSkeleton (Some an))"
  proof -
    from a have wf: "wellFormed t" and run: "convertToSkeleton h fuel rt cr t = Some t'"
      and sub: "inSubtree t rt e"
      and anc: "\<forall>a an. a \<noteq> e \<and> inSubtree t rt a \<and> inSubtree t a e \<and> nodes t a = Some an
               \<longrightarrow> \<not> shouldConvertToSkeleton (Some an)"
      by simp_all
    from convertToSkeleton_rewritten[OF wf run] obtain R where R: "rewritten t R t'"
      and fail: "\<And>e el0. inSubtree t rt e \<and> shouldConvertToSkeleton (Some el0)
                 \<and> nodes t e = Some el0 \<and> parent el0 \<noteq> None \<and> ntype el0 = TEXT
                 \<and> (\<exists>x. fst (getFontSizeAndLoadFont h el0 t) = Inl x)
               \<Longrightarrow> R e = [e] \<and> familyName (fontName el0) \<in> notifiedFontFamilies t'"
      and only: "\<And>c. R c \<noteq> [c] \<Longrightarrow>
                 (\<exists>el. nodes t c = Some el \<and> shouldConvertToSkeleton (Some el)
                       \<and> inSubtree t rt c)"
      by blast
    from fail[of e el] a have Re: "R e = [e]" by auto
    have keep: "\<forall>a. a \<noteq> e \<and> inSubtree t rt a \<and> inSubtree t a e \<longrightarrow> R a = [a]"
    proof (intro allI impI)
      fix a assume b: "a \<noteq> e \<and> inSubtree t rt a \<and> inSubtree t a e"
      show "R a = [a]"
      proof (rule ccontr)
        assume "R a \<noteq> [a]"
        from only[OF this] obtain an where "nodes t a = Some an"
          "shouldConvertToSkeleton (Some an)" by blast
        with anc b show False by blast
      qed
    qed
    show ?thesis by (rule kept_path[OF R sub inSubtree.self keep Re])
  qed
  from one two three four show ?thesis by blast
qed

lemma twoTextsDoc_wf: "wellFormed twoTextsDoc"
  unfolding wellFormed_def
  by (auto simp: twoTextsDoc_def mkNode_def split: if_splits)

theorem font_warning_once_per_family_witness:
  "wellFormed twoTextsDoc
   \<and> (\<exists>s' ws. createSkeletonVersion noFonts 3 (Radius 8) twoTextsDoc = Some s'
         \<and> notifications s' = notifications twoTextsDoc @ ws
         \<and> ws = [FontWarning ''Inter'', SuccessOne]
         \<and> count_list ws (FontWarning ''Inter'') = 1
         \<and> nodes s' 2 = nodes twoTextsDoc 2 \<and> nodes s' 3 = nodes twoTextsDoc 3)
   \<and> (\<exists>t'. convertToSkeleton noFonts 3 1 8 twoTextsDoc = Some t'
         \<and> ''Inter'' \<in> notifiedFontFamilies t'
         \<and> nodes t' 2 = nodes twoTextsDoc 2
         \<and> map_option children (nodes t' 1) = Some [2, 3]
         \<and> inSubtree t' 1 2)"
proof -
  let ?title = "mkNode TEXT ''Title'' 10 10 100 20 [] (Some 1)"
  have ev: "(case createSkeletonVersion noFonts 3 (Radius 8) twoTextsDoc of None \<Rightarrow> False
             | Some s' \<Rightarrow> notifications s'
                              = notifications twoTextsDoc @ [FontWarning ''Inter'', SuccessOne]
                           \<and> nodes s' 2 = nodes twoTextsDoc 2 \<and> nodes s' 3 = nodes twoTextsDoc 3)"
    by code_simp
  then obtain s' where run: "createSkeletonVersion noFonts 3 (Radius 8) twoTextsDoc = Some s'"
    and obs: "notifications s' = notifications twoTextsDoc @ [FontWarning ''Inter'', SuccessOne]"
      "nodes s' 2 = nodes twoTextsDoc 2" "nodes s' 3 = nodes twoTextsDoc 3"
    by (auto split: option.splits)
  have ev2: "(case convertToSkeleton noFonts 3 1 8 twoTextsDoc of None \<Rightarrow> False
             | Some t' \<Rightarrow> nodes t' 2 = nodes twoTextsDoc 2
                           \<and> map_option children (nodes t' 1) = Some [2, 3])"
    by code_simp
  then obtain t' where run2: "convertToSkeleton noFonts 3 1 8 twoTextsDoc = Some t'"
    and obs2: "nodes t' 2 = nodes twoTextsDoc 2" "map_option children (nodes t' 1) = Some [2, 3]"
    by (auto split: option.splits)
  have sub: "inSubtree twoTextsDoc 1 2"
    by (rule inSubtree.child[of _ _ "mkNode FRAME ''Card'' 0 0 200 100 [2, 3] (Some 0)" 2])
       (simp_all add: twoTextsDoc_def mkNode_def inSubtree.self)
  have el: "nodes twoTextsDoc 2 = Some ?title" by (simp add: twoTextsDoc_def)
  have sc: "shouldConvertToSkeleton (Some ?title)" "ntype ?title = TEXT" "parent ?title = Some 1"
    by (simp_all add: shouldConvertToSkeleton_def convertibleTypes_def mkNode_def)
  have ff: "fst (getFontSizeAndLoadFont noFonts ?title twoTextsDoc) = Inl (FontLoadError inter)"
    by (simp add: getFontSizeAndLoadFont_def mkNode_def inter_def noFonts_def fallbackFonts_def)
  have fam: "familyName (fontName ?title) = ''Inter''"
    by (simp add: mkNode_def inter_def)
  note T = font_warning_once_per_family[where h = noFonts and fuel = 3 and arg = "Radius 8"
      and s = twoTextsDoc and s' = s' and t = twoTextsDoc and rt = 1 and cr = 8 and t' = t'
      and e = 2 and el = ?title and p = 1 and err = "FontLoadError inter" and u = twoTextsDoc]
  from T run obtain ws where ws: "notifications s' = notifications twoTextsDoc @ ws"
    by blast
  with obs(1) have wse: "ws = [FontWarning ''Inter'', SuccessOne]" by simp
  then have cnt: "count_list ws (FontWarning ''Inter'') = 1" by simp
  from T twoTextsDoc_wf run2 sub el sc ff fam
  have inter: "''Inter'' \<in> notifiedFontFamilies t'" by simp
  have anc: "\<forall>a an. a \<noteq> 2 \<and> inSubtree twoTextsDoc 1 a \<and> inSubtree twoTextsDoc a 2
               \<and> nodes twoTextsDoc a = Some an \<longrightarrow> \<not> shouldConvertToSkeleton (Some an)"
  proof (intro allI impI)
    fix a an
    assume b: "a \<noteq> 2 \<and> inSubtree twoTextsDoc 1 a \<and> inSubtree twoTextsDoc a 2
               \<and> nodes twoTextsDoc a = Some an"
    then have dom: "a = 0 \<or> a = 1 \<or> a = 3"
      by (auto simp: twoTextsDoc_def split: if_splits)
    have "a \<noteq> 3"
    proof
      assume a3: "a = 3"
      with b have "inSubtree twoTextsDoc 3 2" by simp
      from inSubtree_head[OF this] show False by (auto simp: twoTextsDoc_def mkNode_def)
    qed
    with dom b show "\<not> shouldConvertToSkeleton (Some an)"
      by (auto simp: twoTextsDoc_def mkNode_def shouldConvertToSkeleton_def convertibleTypes_def)
  qed
  from T twoTextsDoc_wf run2 sub el sc ff anc
  have tree: "inSubtree t' 1 2" by blast
  from twoTextsDoc_wf run ws wse cnt obs run2 obs2 inter tree show ?thesis by blast
qed

text \<open>
  C1, as stated, fails. With an instance and a card selected, on a host where the
  instance cannot be detached, the exception of the first root ends the loop: the card
  and its rectangle are as before, nothing is created, the selection is as before, and
  the only notification is the error, not a summary. The card selected alone, on the
  same host, is converted.
\<close>

theorem exception_in_first_root_ends_run:
  "(case createSkeletonVersion noDetach 3 (Radius 8) twoRootsDoc of
      None \<Rightarrow> False
    | Some s' \<Rightarrow> notifications s' = [ErrorCreating (DetachError 1)]
                  \<and> nodes s' 2 = nodes twoRootsDoc 2 \<and> nodes s' 3 = nodes twoRootsDoc 3
                  \<and> fresh s' = fresh twoRootsDoc \<and> selection s' = [1, 2])
   \<and> (case createSkeletonVersion noDetach 3 (Radius 8) (twoRootsDoc\<lparr>selection := [2]\<rparr>) of
        None \<Rightarrow> False
      | Some s' \<Rightarrow> notifications s' = [SuccessOne]
                    \<and> map_option children (nodes s' 2) = Some [4] \<and> selection s' = [2])"
  by code_simp

text \<open>
  C1, amended. When the processing of the selection up to and including some root ends
  with an exception, the run over the whole selection completes with the same
  exception at the same state, whatever roots follow: the roots after it are not
  attempted. The run reports the error as its last notification, in place of the
  summary, and leaves the selection as it was.
\<close>

theorem exception_ends_the_run:
  assumes sel: "selection s = pre @ r # post"
    and start: "s0 = (if validRadius arg then s\<lparr>notifiedFontFamilies := {}\<rparr>
                      else notify InvalidRadiusNotice (s\<lparr>notifiedFontFamilies := {}\<rparr>))"
    and fail: "processSelection h fuel (radiusValue arg) (pre @ [r]) [] False s0
                 = Some (Inl e, s1)"
  shows "processSelection h fuel (radiusValue arg) (pre @ r # post) [] False s0
           = Some (Inl e, s1)
         \<and> createSkeletonVersion h fuel arg s = Some (notify (ErrorCreating e) s1)
         \<and> selection (notify (ErrorCreating e) s1) = selection s
         \<and> nodes (notify (ErrorCreating e) s1) = nodes s1
         \<and> notifications (notify (ErrorCreating e) s1) = notifications s1 @ [ErrorCreating e]"
proof -
  have "pre @ r # post = (pre @ [r]) @ post" by simp
  then have p: "processSelection h fuel (radiusValue arg) (pre @ r # post) [] False s0
                  = Some (Inl e, s1)"
    using fail processSelection_append[of h fuel "radiusValue arg" "pre @ [r]" post "[]" False s0]
    by simp
  have sel0: "selection s0 = pre @ r # post" using sel start by (simp add: notify_def)
  have c: "createSkeletonVersion h fuel arg s = Some (notify (ErrorCreating e) s1)"
    using p sel0 start by (simp add: createSkeletonVersion_def Let_def)
  have "selection s1 = selection s0"
    using logStep_processSelection[OF fail] by (simp add: logStep_def)
  then have s: "selection (notify (ErrorCreating e) s1) = selection s"
    using sel0 sel by (simp add: notify_def)
  from p c s show ?thesis by (simp add: notify_def)
qed

theorem exception_ends_the_run_witness:
  "selection twoRootsDoc = [] @ 1 # [2]
   \<and> processSelection noDetach 3 8 ([] @ [1]) [] False (twoRootsDoc\<lparr>notifiedFontFamilies := {}\<rparr>)
       = Some (Inl (DetachError 1), twoRootsDoc\<lparr>notifiedFontFamilies := {}\<rparr>)
   \<and> createSkeletonVersion noDetach 3 (Radius 8) twoRootsDoc
       = Some (notify (ErrorCreating (DetachError 1)) (twoRootsDoc\<lparr>notifiedFontFamilies := {}\<rparr>))
   \<and> notifications (notify (ErrorCreating (DetachError 1))
                      (twoRootsDoc\<lparr>notifiedFontFamilies := {}\<rparr>))
       = [ErrorCreating (DetachError 1)]"
proof -
  let ?s0 = "twoRootsDoc\<lparr>notifiedFontFamilies := {}\<rparr>"
  have sel: "selection twoRootsDoc = [] @ 1 # [2]" by (simp add: twoRootsDoc_def)
  have start: "?s0 = (if validRadius (Radius 8) then ?s0 else notify InvalidRadiusNotice ?s0)"
    by simp
  have n1: "nodes ?s0 1 = Some (mkNode INSTANCE ''Button'' 0 0 100 40 [] (Some 0))"
    and n0: "nodes ?s0 0 = Some (mkNode FRAME ''Screen'' 0 0 400 400 [1, 2] None)"
    by (simp_all add: twoRootsDoc_def)
  have d: "detachAllInstances noDetach 3 1 ?s0 = Some (Some (DetachError 1), ?s0)"
    using n1 by (simp add: eval_nat_numeral mkNode_def noDetach_def)
  have fail: "processSelection noDetach 3 (radiusValue (Radius 8)) ([] @ [1]) [] False ?s0
                = Some (Inl (DetachError 1), ?s0)"
    using n1 n0 d by (simp add: mkNode_def isNestedFrame_def convertFrameInPlace_def)
  from exception_ends_the_run[OF sel start fail] sel fail
  show ?thesis by (simp add: twoRootsDoc_def)
qed

section \<open>A top-level frame is converted on a copy\<close>

























lemma confined_fresh: "confined n0 s s' \<Longrightarrow> fresh s \<le> fresh s'"
  unfolding confined_def by (elim conjE)




end
